theory Spec2Isabelle
  imports Complex_Main "HOL-Library.Word"
begin

unbundle bit_operations_syntax

section \<open>Errors, warnings and the result type\<close>

text \<open>
  \<open>Log(EError, ...)\<close> throws: every such call is a branch that ends the operation with a
  value of \<open>error\<close>. \<open>Assert\<close> is \<open>EAssertionFailed\<close>. A read or write of an array
  outside its allocation is undefined behaviour in C++; the model reports it as
  \<open>EOutOfBounds\<close> instead of returning an unspecified value. \<open>EStreamEOF\<close> and
  \<open>EInflate\<close> are the failures of the stream collaborator (a read past the end, a
  body that does not decompress).
\<close>

datatype error =
    ENotLittleEndian
  | ELegacyFormat
  | EInvalidFormat
  | EIncompatibleVersion
  | EIndexOutOfRange
  | EEmptyMesh
  | ETexcoordsRequired
  | EAssertionFailed
  | EOutOfBounds
  | EStreamEOF
  | EInflate

datatype warning =
    WInvalidNormals int   \<comment> \<open>"Unable to generate %i vertex normals"\<close>
  | WDegenerate int       \<comment> \<open>"Mesh contains %i degenerate triangles!"\<close>

definition bindE :: "error + 'a \<Rightarrow> ('a \<Rightarrow> error + 'b) \<Rightarrow> error + 'b" where
  "bindE r f = (case r of Inl e \<Rightarrow> Inl e | Inr v \<Rightarrow> f v)"

fun foldE :: "('a \<Rightarrow> 's \<Rightarrow> error + 's) \<Rightarrow> 'a list \<Rightarrow> 's \<Rightarrow> error + 's" where
  "foldE f [] s = Inr s"
| "foldE f (x # xs) s = bindE (f x s) (foldE f xs)"

definition read_at :: "'a list \<Rightarrow> nat \<Rightarrow> error + 'a" where
  "read_at xs i = (if i < length xs then Inr (xs ! i) else Inl EOutOfBounds)"

definition modify :: "'a list \<Rightarrow> nat \<Rightarrow> ('a \<Rightarrow> 'a) \<Rightarrow> error + 'a list" where
  "modify xs i f = (if i < length xs then Inr (xs[i := f (xs ! i)]) else Inl EOutOfBounds)"

section \<open>Floating point numbers and vectors\<close>

text \<open>
  \<open>Float\<close> is a type parameter \<open>'f\<close>; the arithmetic the code performs on it is a
  record of operations that every function takes as its first argument. No property
  of the operations is assumed, so a theorem holds for any rounding, and for the
  comparisons of IEEE 754 with their NaN. \<open>unitAngle\<close>, \<open>coordinateSystem\<close>,
  \<open>degToRad\<close>, \<open>Triangle::surfaceArea\<close> and \<open>DiscreteDistribution::normalize\<close>
  are functions of the core library that the mesh code calls; they are fields too.
\<close>

datatype 'f Vector = Vector (vx: 'f) (vy: 'f) (vz: 'f)
datatype 'f Point2 = Point2 (px: 'f) (py: 'f)

type_synonym 'f Point = "'f Vector"
type_synonym 'f Normal = "'f Vector"
type_synonym 'f Color3 = "'f Vector"

type_synonym u32 = "32 word"

datatype Triangle = Triangle (idx0: u32) (idx1: u32) (idx2: u32)

record 'f FloatOps =
  fzero :: 'f
  fone :: 'f
  fadd :: "'f \<Rightarrow> 'f \<Rightarrow> 'f"
  fsub :: "'f \<Rightarrow> 'f \<Rightarrow> 'f"
  fmul :: "'f \<Rightarrow> 'f \<Rightarrow> 'f"
  fdiv :: "'f \<Rightarrow> 'f \<Rightarrow> 'f"
  fneg :: "'f \<Rightarrow> 'f"
  fsqrt :: "'f \<Rightarrow> 'f"
  fcos :: "'f \<Rightarrow> 'f"
  feq :: "'f \<Rightarrow> 'f \<Rightarrow> bool"
  flt :: "'f \<Rightarrow> 'f \<Rightarrow> bool"
  degToRad :: "'f \<Rightarrow> 'f"
  unitAngle :: "'f Vector \<Rightarrow> 'f Vector \<Rightarrow> 'f"
  coordinateSystem :: "'f Vector \<Rightarrow> 'f Vector \<times> 'f Vector"
  surfaceArea :: "Triangle \<Rightarrow> 'f Point list \<Rightarrow> 'f"
  normalizeDistr :: "'f list \<Rightarrow> 'f"

text \<open>
  Modelled from the spec: the vector algebra of the core library (\<open>vector.h\<close>,
  \<open>point.h\<close>, \<open>normal.h\<close> are not among the sources): componentwise sum, difference
  and scaling, the cross and dot products, the Euclidean length, division by a scalar
  as multiplication with its reciprocal, \<open>normalize v = v / |v|\<close>, and equality as
  the conjunction of the componentwise \<open>==\<close>.
\<close>

definition vzero :: "'f FloatOps \<Rightarrow> 'f Vector" where
  "vzero ops = Vector (fzero ops) (fzero ops) (fzero ops)"

definition vadd :: "'f FloatOps \<Rightarrow> 'f Vector \<Rightarrow> 'f Vector \<Rightarrow> 'f Vector" where
  "vadd ops a b = Vector (fadd ops (vx a) (vx b)) (fadd ops (vy a) (vy b)) (fadd ops (vz a) (vz b))"

definition vsub :: "'f FloatOps \<Rightarrow> 'f Vector \<Rightarrow> 'f Vector \<Rightarrow> 'f Vector" where
  "vsub ops a b = Vector (fsub ops (vx a) (vx b)) (fsub ops (vy a) (vy b)) (fsub ops (vz a) (vz b))"

definition vscale :: "'f FloatOps \<Rightarrow> 'f Vector \<Rightarrow> 'f \<Rightarrow> 'f Vector" where
  "vscale ops a f = Vector (fmul ops (vx a) f) (fmul ops (vy a) f) (fmul ops (vz a) f)"

definition vdiv :: "'f FloatOps \<Rightarrow> 'f Vector \<Rightarrow> 'f \<Rightarrow> 'f Vector" where
  "vdiv ops a f = vscale ops a (fdiv ops (fone ops) f)"

definition cross :: "'f FloatOps \<Rightarrow> 'f Vector \<Rightarrow> 'f Vector \<Rightarrow> 'f Vector" where
  "cross ops a b = Vector
     (fsub ops (fmul ops (vy a) (vz b)) (fmul ops (vz a) (vy b)))
     (fsub ops (fmul ops (vz a) (vx b)) (fmul ops (vx a) (vz b)))
     (fsub ops (fmul ops (vx a) (vy b)) (fmul ops (vy a) (vx b)))"

definition dot :: "'f FloatOps \<Rightarrow> 'f Vector \<Rightarrow> 'f Vector \<Rightarrow> 'f" where
  "dot ops a b =
     fadd ops (fadd ops (fmul ops (vx a) (vx b)) (fmul ops (vy a) (vy b))) (fmul ops (vz a) (vz b))"

definition vlength :: "'f FloatOps \<Rightarrow> 'f Vector \<Rightarrow> 'f" where
  "vlength ops a = fsqrt ops (dot ops a a)"

definition normalize_v :: "'f FloatOps \<Rightarrow> 'f Vector \<Rightarrow> 'f Vector" where
  "normalize_v ops a = vdiv ops a (vlength ops a)"

definition veq :: "'f FloatOps \<Rightarrow> 'f Vector \<Rightarrow> 'f Vector \<Rightarrow> bool" where
  "veq ops a b \<longleftrightarrow> feq ops (vx a) (vx b) \<and> feq ops (vy a) (vy b) \<and> feq ops (vz a) (vz b)"

definition sub2 :: "'f FloatOps \<Rightarrow> 'f Point2 \<Rightarrow> 'f Point2 \<Rightarrow> 'f Point2" where
  "sub2 ops a b = Point2 (fsub ops (px a) (px b)) (fsub ops (py a) (py b))"

section \<open>The mesh\<close>

text \<open>
  \<open>tri.idx[i]\<close> for \<open>i = 0, 1, 2\<close>.
\<close>

definition idx :: "Triangle \<Rightarrow> nat \<Rightarrow> u32" where
  "idx t i = (if i = 0 then idx0 t else if i = 1 then idx1 t else idx2 t)"

definition set_idx :: "Triangle \<Rightarrow> nat \<Rightarrow> u32 \<Rightarrow> Triangle" where
  "set_idx t i v =
     (if i = 0 then Triangle v (idx1 t) (idx2 t)
      else if i = 1 then Triangle (idx0 t) v (idx2 t)
      else Triangle (idx0 t) (idx1 t) v)"

text \<open>
  The three capability queries the mesh asks of its material:
  \<open>getType() & EAnisotropic\<close>, \<open>getType() & EGlossy\<close>, \<open>usesRayDifferentials()\<close>.
\<close>

record BSDF =
  isAnisotropic :: bool
  isGlossy :: bool
  usesRayDifferentials :: bool

record 'f TangentSpace =
  dpdu :: "'f Vector"
  dpdv :: "'f Vector"

text \<open>
  The fields of \<open>TriMesh\<close> that the functions below read or write. A pointer that may
  be \<open>NULL\<close> is an \<open>option\<close>; an array is the list of its elements, and the counts
  are fields of their own, as in the class. \<open>m_areaDistr\<close> holds the values appended
  to the distribution. The bounding box and the fields of \<open>Shape\<close> other than the
  material are not modelled.
\<close>

record 'f TriMesh =
  m_name :: string
  m_triangleCount :: nat
  m_vertexCount :: nat
  m_triangles :: "Triangle list"
  m_positions :: "'f Point list"
  m_normals :: "'f Normal list option"
  m_texcoords :: "'f Point2 list option"
  m_colors :: "'f Color3 list option"
  m_tangents :: "'f TangentSpace list option"
  m_surfaceArea :: 'f
  m_invSurfaceArea :: 'f
  m_areaDistr :: "'f list"
  m_flipNormals :: bool
  m_faceNormals :: bool
  m_bsdf :: "BSDF option"

text \<open>
  The invariants of the data model: every array has the length its count says, and
  every triangle index is below the vertex count.
\<close>

definition tri_in_range :: "nat \<Rightarrow> Triangle \<Rightarrow> bool" where
  "tri_in_range n t \<longleftrightarrow> unat (idx0 t) < n \<and> unat (idx1 t) < n \<and> unat (idx2 t) < n"

definition has_len :: "nat \<Rightarrow> 'a list option \<Rightarrow> bool" where
  "has_len n a = (case a of None \<Rightarrow> True | Some xs \<Rightarrow> length xs = n)"

definition wf_mesh :: "'f TriMesh \<Rightarrow> bool" where
  "wf_mesh m \<longleftrightarrow>
     length (m_triangles m) = m_triangleCount m \<and>
     length (m_positions m) = m_vertexCount m \<and>
     has_len (m_vertexCount m) (m_normals m) \<and>
     has_len (m_vertexCount m) (m_texcoords m) \<and>
     has_len (m_vertexCount m) (m_colors m) \<and>
     has_len (m_triangleCount m) (m_tangents m) \<and>
     list_all (tri_in_range (m_vertexCount m)) (m_triangles m)"

section \<open>computeNormals\<close>

text \<open>
  One pass of the inner loop \<open>for (int i=0; i<3; ++i)\<close> over the corners of a
  triangle. The state is the face normal \<open>n\<close> and the array of vertex normals; the
  flag says that the loop was left by \<open>break\<close>.
\<close>

definition corner_step ::
  "'f FloatOps \<Rightarrow> 'f Point list \<Rightarrow> Triangle \<Rightarrow> nat \<Rightarrow> 'f Normal \<times> 'f Normal list
     \<Rightarrow> error + (bool \<times> 'f Normal \<times> 'f Normal list)" where
  "corner_step ops ps tri i st =
     (case st of (n, normals) \<Rightarrow>
      bindE (read_at ps (unat (idx tri i))) (\<lambda>v0.
      bindE (read_at ps (unat (idx tri ((i + 1) mod 3)))) (\<lambda>v1.
      bindE (read_at ps (unat (idx tri ((i + 2) mod 3)))) (\<lambda>v2.
        let sideA = vsub ops v1 v0;
            sideB = vsub ops v2 v0;
            c = cross ops sideA sideB;
            len = vlength ops c
        in if i = 0 \<and> feq ops len (fzero ops) then Inr (True, c, normals)
           else
             let n' = (if i = 0 then vdiv ops c len else n);
                 angle = unitAngle ops (normalize_v ops sideA) (normalize_v ops sideB)
             in bindE (modify normals (unat (idx tri i)) (\<lambda>a. vadd ops a (vscale ops n' angle)))
                  (\<lambda>normals'. Inr (False, n', normals'))))))"

fun corner_loop ::
  "'f FloatOps \<Rightarrow> 'f Point list \<Rightarrow> Triangle \<Rightarrow> nat list \<Rightarrow> 'f Normal \<times> 'f Normal list
     \<Rightarrow> error + 'f Normal list" where
  "corner_loop ops ps tri [] st = Inr (snd st)"
| "corner_loop ops ps tri (i # is) st =
     bindE (corner_step ops ps tri i st) (\<lambda>r.
       case r of (brk, n, normals) \<Rightarrow>
         if brk then Inr normals else corner_loop ops ps tri is (n, normals))"

text \<open>The body of \<open>for (size_t i=0; i<m_triangleCount; i++)\<close> in the synthesis branch.\<close>

definition accumulate :: "'f FloatOps \<Rightarrow> 'f TriMesh \<Rightarrow> nat \<Rightarrow> 'f Normal list \<Rightarrow> error + 'f Normal list" where
  "accumulate ops m i normals =
     bindE (read_at (m_triangles m) i) (\<lambda>tri.
       corner_loop ops (m_positions m) tri [0, 1, 2] (vzero ops, normals))"

text \<open>
  The body of the loop that normalizes the accumulated sums; the state is the array and
  the count \<open>invalidNormals\<close>.
\<close>

definition finish_normal ::
  "'f FloatOps \<Rightarrow> bool \<Rightarrow> nat \<Rightarrow> 'f Normal list \<times> int \<Rightarrow> error + ('f Normal list \<times> int)" where
  "finish_normal ops flip i st =
     (case st of (normals, invalidNormals) \<Rightarrow>
      bindE (read_at normals i) (\<lambda>n.
        let len0 = vlength ops n;
            len = (if flip then fmul ops len0 (fneg ops (fone ops)) else len0)
        in if \<not> feq ops len (fzero ops)
           then Inr (normals[i := vdiv ops n len], invalidNormals)
           else Inr (normals[i := Vector (fone ops) (fzero ops) (fzero ops)], invalidNormals + 1)))"

definition swap01 :: "Triangle \<Rightarrow> Triangle" where
  "swap01 t = Triangle (idx1 t) (idx0 t) (idx2 t)"

definition computeNormals :: "'f FloatOps \<Rightarrow> 'f TriMesh \<Rightarrow> error + ('f TriMesh \<times> warning list)" where
  "computeNormals ops m =
     bindE
       (if m_faceNormals m then
          let m1 = m\<lparr>m_normals := None\<rparr> in
          if m_flipNormals m then
            bindE (foldE (\<lambda>i ts. modify ts i swap01) [0..<m_triangleCount m] (m_triangles m))
              (\<lambda>ts. Inr (m1\<lparr>m_triangles := ts\<rparr>, 0))
          else Inr (m1, 0)
        else
          (case m_normals m of
             Some normals \<Rightarrow>
               if m_flipNormals m then
                 bindE (foldE (\<lambda>i ns. modify ns i (\<lambda>n. vscale ops n (fneg ops (fone ops))))
                          [0..<m_vertexCount m] normals)
                   (\<lambda>ns. Inr (m\<lparr>m_normals := Some ns\<rparr>, 0))
               else Inr (m, 0)
           | None \<Rightarrow>
               bindE (foldE (accumulate ops m) [0..<m_triangleCount m]
                        (replicate (m_vertexCount m) (vzero ops))) (\<lambda>acc.
               bindE (foldE (finish_normal ops (m_flipNormals m)) [0..<m_vertexCount m] (acc, 0))
                 (\<lambda>r. case r of (normals, invalidNormals) \<Rightarrow>
                    Inr (m\<lparr>m_normals := Some normals\<rparr>, invalidNormals)))))
       (\<lambda>r. case r of (m', invalidNormals) \<Rightarrow>
          Inr (m'\<lparr>m_flipNormals := False\<rparr>,
               if invalidNormals > 0 then [WInvalidNormals invalidNormals] else []))"

section \<open>computeUVTangents\<close>

definition zero_tangent :: "'f FloatOps \<Rightarrow> 'f TangentSpace" where
  "zero_tangent ops = \<lparr>dpdu = vzero ops, dpdv = vzero ops\<rparr>"

definition hasAnisotropicBSDF :: "'f TriMesh \<Rightarrow> bool" where
  "hasAnisotropicBSDF m = (case m_bsdf m of None \<Rightarrow> False | Some b \<Rightarrow> isAnisotropic b)"

text \<open>
  The body of \<open>for (size_t i=0; i<m_triangleCount; i++)\<close>; the state is the array
  \<open>m_tangents\<close> and the count \<open>degenerate\<close>. \<open>continue\<close> leaves the entry of the
  triangle as \<open>memset\<close> wrote it; in the two other cases the entry is overwritten,
  through the references passed to \<open>coordinateSystem\<close> or by the two assignments.
\<close>

definition tangent_step ::
  "'f FloatOps \<Rightarrow> 'f TriMesh \<Rightarrow> 'f Point2 list \<Rightarrow> nat \<Rightarrow> 'f TangentSpace list \<times> int
     \<Rightarrow> error + ('f TangentSpace list \<times> int)" where
  "tangent_step ops m uvs i st =
     (case st of (tangents, degenerate) \<Rightarrow>
      bindE (read_at (m_triangles m) i) (\<lambda>tri.
      bindE (read_at (m_positions m) (unat (idx0 tri))) (\<lambda>v0.
      bindE (read_at (m_positions m) (unat (idx1 tri))) (\<lambda>v1.
      bindE (read_at (m_positions m) (unat (idx2 tri))) (\<lambda>v2.
      bindE (read_at uvs (unat (idx0 tri))) (\<lambda>uv0.
      bindE (read_at uvs (unat (idx1 tri))) (\<lambda>uv1.
      bindE (read_at uvs (unat (idx2 tri))) (\<lambda>uv2.
        let dP1 = vsub ops v1 v0; dP2 = vsub ops v2 v0;
            dUV1 = sub2 ops uv1 uv0; dUV2 = sub2 ops uv2 uv0;
            n = cross ops dP1 dP2;
            len = vlength ops n
        in if feq ops len (fzero ops) then Inr (tangents, degenerate + 1)
           else
             let determinant = fsub ops (fmul ops (px dUV1) (py dUV2)) (fmul ops (py dUV1) (px dUV2));
                 frame =
                   (if feq ops determinant (fzero ops) then
                      (case coordinateSystem ops (vdiv ops n len) of (s, t) \<Rightarrow>
                         \<lparr>dpdu = s, dpdv = t\<rparr>)
                    else
                      let invDet = fdiv ops (fone ops) determinant in
                      \<lparr>dpdu = vscale ops (vsub ops (vscale ops dP1 (py dUV2)) (vscale ops dP2 (py dUV1))) invDet,
                       dpdv = vscale ops (vadd ops (vscale ops dP1 (fneg ops (px dUV2))) (vscale ops dP2 (px dUV1))) invDet\<rparr>)
             in bindE (modify tangents i (\<lambda>_. frame))
                  (\<lambda>tangents'. Inr (tangents', degenerate))))))))))"

definition computeUVTangents :: "'f FloatOps \<Rightarrow> 'f TriMesh \<Rightarrow> error + ('f TriMesh \<times> warning list)" where
  "computeUVTangents ops m =
     (case m_texcoords m of
        None \<Rightarrow> if hasAnisotropicBSDF m then Inl ETexcoordsRequired else Inr (m, [])
      | Some uvs \<Rightarrow>
          if m_tangents m \<noteq> None then Inr (m, [])
          else
            bindE (foldE (tangent_step ops m uvs) [0..<m_triangleCount m]
                     (replicate (m_triangleCount m) (zero_tangent ops), 0))
              (\<lambda>r. case r of (tangents, degenerate) \<Rightarrow>
                 Inr (m\<lparr>m_tangents := Some tangents\<rparr>,
                      if degenerate > 0 then [WDegenerate degenerate] else [])))"

text \<open>
  What \<open>computeUVTangents\<close> stores for triangle \<open>i\<close>, written as a function of the
  input mesh: the length of the geometric normal, the determinant of the UV edge
  deltas, and the frame by the three cases of the loop body. These are the terms the
  theorems about the loop are stated in.
\<close>

definition geo_normal :: "'f FloatOps \<Rightarrow> 'f TriMesh \<Rightarrow> nat \<Rightarrow> 'f Vector" where
  "geo_normal ops m i =
     (let tri = m_triangles m ! i;
          v0 = m_positions m ! unat (idx0 tri)
      in cross ops (vsub ops (m_positions m ! unat (idx1 tri)) v0)
                   (vsub ops (m_positions m ! unat (idx2 tri)) v0))"

definition uv_determinant :: "'f FloatOps \<Rightarrow> 'f TriMesh \<Rightarrow> 'f Point2 list \<Rightarrow> nat \<Rightarrow> 'f" where
  "uv_determinant ops m uvs i =
     (let tri = m_triangles m ! i;
          dUV1 = sub2 ops (uvs ! unat (idx1 tri)) (uvs ! unat (idx0 tri));
          dUV2 = sub2 ops (uvs ! unat (idx2 tri)) (uvs ! unat (idx0 tri))
      in fsub ops (fmul ops (px dUV1) (py dUV2)) (fmul ops (py dUV1) (px dUV2)))"

definition solved_frame :: "'f FloatOps \<Rightarrow> 'f TriMesh \<Rightarrow> 'f Point2 list \<Rightarrow> nat \<Rightarrow> 'f TangentSpace" where
  "solved_frame ops m uvs i =
     (let tri = m_triangles m ! i;
          v0 = m_positions m ! unat (idx0 tri);
          dP1 = vsub ops (m_positions m ! unat (idx1 tri)) v0;
          dP2 = vsub ops (m_positions m ! unat (idx2 tri)) v0;
          dUV1 = sub2 ops (uvs ! unat (idx1 tri)) (uvs ! unat (idx0 tri));
          dUV2 = sub2 ops (uvs ! unat (idx2 tri)) (uvs ! unat (idx0 tri));
          invDet = fdiv ops (fone ops) (uv_determinant ops m uvs i)
      in \<lparr>dpdu = vscale ops (vsub ops (vscale ops dP1 (py dUV2)) (vscale ops dP2 (py dUV1))) invDet,
          dpdv = vscale ops (vadd ops (vscale ops dP1 (fneg ops (px dUV2))) (vscale ops dP2 (px dUV1))) invDet\<rparr>)"

definition zero_normal :: "'f FloatOps \<Rightarrow> 'f TriMesh \<Rightarrow> nat \<Rightarrow> bool" where
  "zero_normal ops m i \<longleftrightarrow> feq ops (vlength ops (geo_normal ops m i)) (fzero ops)"

definition fallback_frame :: "'f FloatOps \<Rightarrow> 'f TriMesh \<Rightarrow> nat \<Rightarrow> 'f TangentSpace" where
  "fallback_frame ops m i =
     (case coordinateSystem ops
             (vdiv ops (geo_normal ops m i) (vlength ops (geo_normal ops m i))) of
        (s, t) \<Rightarrow> \<lparr>dpdu = s, dpdv = t\<rparr>)"

definition stored_frame :: "'f FloatOps \<Rightarrow> 'f TriMesh \<Rightarrow> 'f Point2 list \<Rightarrow> nat \<Rightarrow> 'f TangentSpace" where
  "stored_frame ops m uvs i =
     (if zero_normal ops m i then zero_tangent ops
      else if feq ops (uv_determinant ops m uvs i) (fzero ops) then fallback_frame ops m i
      else solved_frame ops m uvs i)"

definition degenerate_tally :: "'f FloatOps \<Rightarrow> 'f TriMesh \<Rightarrow> int" where
  "degenerate_tally ops m = int (length (filter (zero_normal ops m) [0..<m_triangleCount m]))"

section \<open>getNormalDerivative\<close>

record 'f Intersection =
  primIndex :: nat
  its_p :: "'f Point"

definition getNormalDerivative ::
  "'f FloatOps \<Rightarrow> 'f TriMesh \<Rightarrow> 'f Intersection \<Rightarrow> bool \<Rightarrow> error + ('f Vector \<times> 'f Vector)" where
  "getNormalDerivative ops m its shadingFrame =
     (if \<not> shadingFrame \<or> m_normals m = None then Inr (vzero ops, vzero ops)
      else
        (let normals = the (m_normals m) in
          if \<not> primIndex its < m_triangleCount m then Inl EAssertionFailed
          else
            bindE (read_at (m_triangles m) (primIndex its)) (\<lambda>tri.
            bindE (read_at (m_positions m) (unat (idx0 tri))) (\<lambda>p0.
            bindE (read_at (m_positions m) (unat (idx1 tri))) (\<lambda>p1.
            bindE (read_at (m_positions m) (unat (idx2 tri))) (\<lambda>p2.
              let rel = vsub ops (its_p its) p0; du = vsub ops p1 p0; dv = vsub ops p2 p0;
                  b1 = dot ops du rel; b2 = dot ops dv rel;
                  a11 = dot ops du du; a12 = dot ops du dv; a22 = dot ops dv dv;
                  det = fsub ops (fmul ops a11 a22) (fmul ops a12 a12)
              in if feq ops det (fzero ops) then Inr (vzero ops, vzero ops)
                 else
                   let invDet = fdiv ops (fone ops) det;
                       u = fmul ops (fsub ops (fmul ops a22 b1) (fmul ops a12 b2)) invDet;
                       v = fmul ops (fadd ops (fmul ops (fneg ops a12) b1) (fmul ops a11 b2)) invDet;
                       w = fsub ops (fsub ops (fone ops) u) v
                   in
                   bindE (read_at normals (unat (idx0 tri))) (\<lambda>n0.
                   bindE (read_at normals (unat (idx1 tri))) (\<lambda>n1.
                   bindE (read_at normals (unat (idx2 tri))) (\<lambda>n2.
                     let N0 = vadd ops (vadd ops (vscale ops n1 u) (vscale ops n2 v)) (vscale ops n0 w);
                         il = fdiv ops (fone ops) (vlength ops N0);
                         N = vscale ops N0 il;
                         dndu0 = vscale ops (vsub ops n1 n0) il;
                         dndu = vsub ops dndu0 (vscale ops N (dot ops N dndu0));
                         dndv0 = vscale ops (vsub ops n2 n0) il;
                         dndv = vsub ops dndv0 (vscale ops N (dot ops N dndv0))
                     in if m_tangents m = None then Inr (dndu, dndv)
                        else
                          (case m_texcoords m of
                             None \<Rightarrow> Inl EOutOfBounds
                           | Some uvs \<Rightarrow>
                               bindE (read_at uvs (unat (idx0 tri))) (\<lambda>uv0.
                               bindE (read_at uvs (unat (idx1 tri))) (\<lambda>uv1.
                               bindE (read_at uvs (unat (idx2 tri))) (\<lambda>uv2.
                                 let duv1 = sub2 ops uv1 uv0; duv2 = sub2 ops uv2 uv0;
                                     det' = fsub ops (fmul ops (px duv1) (py duv2)) (fmul ops (py duv1) (px duv2))
                                 in if feq ops det' (fzero ops) then Inr (vzero ops, vzero ops)
                                    else
                                      let invDet' = fdiv ops (fone ops) det' in
                                      Inr (vscale ops (vsub ops (vscale ops dndu (py duv2)) (vscale ops dndv (py duv1))) invDet',
                                           vscale ops (vadd ops (vscale ops dndu (fneg ops (px duv2))) (vscale ops dndv (px duv1))) invDet'))))))))))))))"

section \<open>The area distribution\<close>

text \<open>
  \<open>m_areaDistr.append(m_triangles[i].surfaceArea(m_positions))\<close> for every triangle,
  then \<open>normalize()\<close>, whose result is stored as the surface area.
\<close>

definition prepareSamplingTable :: "'f FloatOps \<Rightarrow> 'f TriMesh \<Rightarrow> error + 'f TriMesh" where
  "prepareSamplingTable ops m =
     (if m_triangleCount m = 0 then Inl EEmptyMesh
      else if flt ops (m_surfaceArea m) (fzero ops) then
        bindE (foldE (\<lambda>i distr. bindE (read_at (m_triangles m) i)
                        (\<lambda>tri. Inr (distr @ [surfaceArea ops tri (m_positions m)])))
                 [0..<m_triangleCount m] (m_areaDistr m))
          (\<lambda>distr.
             let area = normalizeDistr ops distr in
             Inr (m\<lparr>m_areaDistr := distr, m_surfaceArea := area,
                    m_invSurfaceArea := fdiv ops (fone ops) area\<rparr>))
      else Inr m)"

definition getSurfaceArea :: "'f FloatOps \<Rightarrow> 'f TriMesh \<Rightarrow> error + ('f \<times> 'f TriMesh)" where
  "getSurfaceArea ops m =
     bindE (if flt ops (m_surfaceArea m) (fzero ops) then prepareSamplingTable ops m else Inr m)
       (\<lambda>m'. Inr (m_surfaceArea m', m'))"

text \<open>
  \<open>samplePosition\<close> up to the density it reports: the triangle and the point on it
  are drawn by \<open>DiscreteDistribution::sampleReuse\<close> and \<open>Triangle::sample\<close>, which
  are not modelled. The result is \<open>pRec.pdf\<close> and the mesh after the lazy build.
\<close>

definition samplePosition :: "'f FloatOps \<Rightarrow> 'f TriMesh \<Rightarrow> error + ('f \<times> 'f TriMesh)" where
  "samplePosition ops m =
     bindE (if flt ops (m_surfaceArea m) (fzero ops) then prepareSamplingTable ops m else Inr m)
       (\<lambda>m'. Inr (m_invSurfaceArea m', m'))"

section \<open>configure\<close>

text \<open>
  \<open>configure\<close> without \<open>Shape::configure\<close> and the bounding box: the normals, then the
  tangent frames where the material asks for them.
\<close>

definition configure :: "'f FloatOps \<Rightarrow> 'f TriMesh \<Rightarrow> error + ('f TriMesh \<times> warning list)" where
  "configure ops m =
     bindE (computeNormals ops m) (\<lambda>r1. case r1 of (m1, w1) \<Rightarrow>
     bindE (case m_bsdf m1 of
              Some b \<Rightarrow> if isAnisotropic b \<or> usesRayDifferentials b
                        then computeUVTangents ops m1 else Inr (m1, [])
            | None \<Rightarrow> Inr (m1, [])) (\<lambda>r2. case r2 of (m2, w2) \<Rightarrow>
     bindE (case m_bsdf m2 of
              Some b \<Rightarrow> if isGlossy b then computeUVTangents ops m2 else Inr (m2, [])
            | None \<Rightarrow> Inr (m2, [])) (\<lambda>r3. case r3 of (m3, w3) \<Rightarrow>
       Inr (m3, w1 @ w2 @ w3))))"

section \<open>rebuildTopology\<close>

text \<open>
  \<open>struct Vertex\<close>, the key of the multimap, and \<open>vertex_key_order\<close>. A comparison
  \<open>a > b\<close> of two floats is \<open>b < a\<close>. \<open>SPECTRUM_SAMPLES\<close> is 3, the number of
  channels of \<open>Color3\<close>.
\<close>

record 'f Vertex =
  v_p :: "'f Point"
  v_uv :: "'f Point2"
  v_col :: "'f Color3"

definition cmp_float :: "'f FloatOps \<Rightarrow> 'f \<Rightarrow> 'f \<Rightarrow> int \<Rightarrow> int" where
  "cmp_float ops a b otherwise = (if flt ops a b then - 1 else if flt ops b a then 1 else otherwise)"

definition compare :: "'f FloatOps \<Rightarrow> 'f Vertex \<Rightarrow> 'f Vertex \<Rightarrow> int" where
  "compare ops v1 v2 =
     cmp_float ops (vx (v_p v1)) (vx (v_p v2))
    (cmp_float ops (vy (v_p v1)) (vy (v_p v2))
    (cmp_float ops (vz (v_p v1)) (vz (v_p v2))
    (cmp_float ops (px (v_uv v1)) (px (v_uv v2))
    (cmp_float ops (py (v_uv v1)) (py (v_uv v2))
    (cmp_float ops (vx (v_col v1)) (vx (v_col v2))
    (cmp_float ops (vy (v_col v1)) (vy (v_col v2))
    (cmp_float ops (vz (v_col v1)) (vz (v_col v2)) 0)))))))"

definition key_less :: "'f FloatOps \<Rightarrow> 'f Vertex \<Rightarrow> 'f Vertex \<Rightarrow> bool" where
  "key_less ops v1 v2 \<longleftrightarrow> compare ops v1 v2 < 0"

record TopoData =
  t_idx :: nat
  clustered :: bool

text \<open>
  Modelled from the spec: \<open>std::multimap\<close>. The multimap is the list of its entries in
  the order of their keys, entries with equivalent keys in the order of insertion: an
  entry is inserted before the first entry whose key is greater. An iterator is the
  list of the entries from its position on. The entries before an iterator that the
  outer loop of \<open>rebuildTopology\<close> holds have smaller keys, so
  \<open>lower_bound(it->first)\<close> is \<open>it\<close> itself, and \<open>upper_bound(it->first)\<close> is the first
  entry after it whose key is greater.
\<close>

type_synonym 'f MMap = "('f Vertex \<times> TopoData) list"

fun mm_insert :: "'f FloatOps \<Rightarrow> 'f Vertex \<times> TopoData \<Rightarrow> 'f MMap \<Rightarrow> 'f MMap" where
  "mm_insert ops e [] = [e]"
| "mm_insert ops e (x # xs) =
     (if key_less ops (fst e) (fst x) then e # x # xs else x # mm_insert ops e xs)"

definition same_range :: "'f FloatOps \<Rightarrow> 'f Vertex \<Rightarrow> 'f Vertex \<times> TopoData \<Rightarrow> bool" where
  "same_range ops k x \<longleftrightarrow> \<not> key_less ops k (fst x)"

text \<open>
  The first loop: the key of corner \<open>j\<close> of a triangle, and the body of
  \<open>for (size_t i=0; i<m_triangleCount; ++i)\<close>. The state is the multimap, the face
  normals and the new triangles, the last two filled in the order of \<open>i\<close>.
\<close>

definition SENTINEL :: u32 where "SENTINEL = 0xFFFFFFFF"

definition vertex_key :: "'f FloatOps \<Rightarrow> 'f TriMesh \<Rightarrow> Triangle \<Rightarrow> nat \<Rightarrow> error + 'f Vertex" where
  "vertex_key ops m tri j =
     bindE (read_at (m_positions m) (unat (idx tri j))) (\<lambda>p.
     bindE (case m_texcoords m of
              None \<Rightarrow> Inr (Point2 (fzero ops) (fzero ops))
            | Some uvs \<Rightarrow> read_at uvs (unat (idx tri j))) (\<lambda>uv.
     bindE (case m_colors m of
              None \<Rightarrow> Inr (vzero ops)
            | Some cols \<Rightarrow> read_at cols (unat (idx tri j))) (\<lambda>col.
       Inr \<lparr>v_p = p, v_uv = uv, v_col = col\<rparr>)))"

definition face_normal :: "'f FloatOps \<Rightarrow> 'f Point \<Rightarrow> 'f Point \<Rightarrow> 'f Point \<Rightarrow> 'f Normal" where
  "face_normal ops v0 v1 v2 = normalize_v ops (cross ops (vsub ops v1 v0) (vsub ops v2 v0))"

definition build_step ::
  "'f FloatOps \<Rightarrow> 'f TriMesh \<Rightarrow> nat \<Rightarrow> 'f MMap \<times> 'f Normal list \<times> Triangle list
     \<Rightarrow> error + ('f MMap \<times> 'f Normal list \<times> Triangle list)" where
  "build_step ops m i st =
     (case st of (vertexToFace, faceNormals, newTriangles) \<Rightarrow>
      bindE (read_at (m_triangles m) i) (\<lambda>tri.
      bindE (vertex_key ops m tri 0) (\<lambda>k0.
      bindE (vertex_key ops m tri 1) (\<lambda>k1.
      bindE (vertex_key ops m tri 2) (\<lambda>k2.
      bindE (read_at (m_positions m) (unat (idx tri 0))) (\<lambda>v0.
      bindE (read_at (m_positions m) (unat (idx tri 1))) (\<lambda>v1.
      bindE (read_at (m_positions m) (unat (idx tri 2))) (\<lambda>v2.
        Inr (mm_insert ops (k2, \<lparr>t_idx = i, clustered = False\<rparr>)
               (mm_insert ops (k1, \<lparr>t_idx = i, clustered = False\<rparr>)
                  (mm_insert ops (k0, \<lparr>t_idx = i, clustered = False\<rparr>) vertexToFace)),
             faceNormals @ [face_normal ops v0 v1 v2],
             newTriangles @ [Triangle SENTINEL SENTINEL SENTINEL])))))))))"

text \<open>
  The new arrays that the clustering fills.
\<close>

record 'f NewMesh =
  newPositions :: "'f Point list"
  newTexcoords :: "'f Point2 list"
  newColors :: "'f Color3 list"
  newTriangles :: "Triangle list"

text \<open>
  \<open>n1 == n2 || dot(n1, n2) > dpThresh\<close>.
\<close>

definition mergeable :: "'f FloatOps \<Rightarrow> 'f \<Rightarrow> 'f Normal \<Rightarrow> 'f Normal \<Rightarrow> bool" where
  "mergeable ops dpThresh n1 n2 \<longleftrightarrow> veq ops n1 n2 \<or> flt ops dpThresh (dot ops n1 n2)"

text \<open>
  \<open>for (int i=0; i<3; ++i) if (m_positions[tri.idx[i]] == v.p) newTri.idx[i] = vertexIdx\<close>.
\<close>

definition assign_corner ::
  "'f FloatOps \<Rightarrow> 'f TriMesh \<Rightarrow> Triangle \<Rightarrow> 'f Point \<Rightarrow> u32 \<Rightarrow> nat \<Rightarrow> Triangle \<Rightarrow> error + Triangle" where
  "assign_corner ops m tri p vertexIdx i newTri =
     bindE (read_at (m_positions m) (unat (idx tri i))) (\<lambda>q.
       Inr (if veq ops q p then set_idx newTri i vertexIdx else newTri))"

definition assign_corners ::
  "'f FloatOps \<Rightarrow> 'f TriMesh \<Rightarrow> Triangle \<Rightarrow> 'f Point \<Rightarrow> u32 \<Rightarrow> Triangle \<Rightarrow> error + Triangle" where
  "assign_corners ops m tri p vertexIdx newTri =
     foldE (assign_corner ops m tri p vertexIdx) [0, 1, 2] newTri"

text \<open>
  The loop over \<open>it3\<close>, from \<open>it2\<close> to \<open>end\<close>: the entries it absorbs are marked, and the
  corners of their triangles that lie at the seed's position get the new vertex.
\<close>

fun absorb_loop ::
  "'f FloatOps \<Rightarrow> 'f TriMesh \<Rightarrow> 'f Normal list \<Rightarrow> 'f \<Rightarrow> 'f Point \<Rightarrow> 'f Normal \<Rightarrow> u32
     \<Rightarrow> 'f MMap \<Rightarrow> Triangle list \<Rightarrow> error + ('f MMap \<times> Triangle list)" where
  "absorb_loop ops m faceNormals dpThresh p n1 vertexIdx [] nts = Inr ([], nts)"
| "absorb_loop ops m faceNormals dpThresh p n1 vertexIdx ((k, t2) # es) nts =
     (if clustered t2 then
        bindE (absorb_loop ops m faceNormals dpThresh p n1 vertexIdx es nts)
          (\<lambda>r. case r of (es', nts') \<Rightarrow> Inr ((k, t2) # es', nts'))
      else
        bindE (read_at faceNormals (t_idx t2)) (\<lambda>n2.
          if mergeable ops dpThresh n1 n2 then
            bindE (read_at (m_triangles m) (t_idx t2)) (\<lambda>tri.
            bindE (read_at nts (t_idx t2)) (\<lambda>newTri.
            bindE (assign_corners ops m tri p vertexIdx newTri) (\<lambda>newTri'.
            bindE (absorb_loop ops m faceNormals dpThresh p n1 vertexIdx es
                     (nts[t_idx t2 := newTri']))
              (\<lambda>r. case r of (es', nts') \<Rightarrow> Inr ((k, t2\<lparr>clustered := True\<rparr>) # es', nts')))))
          else
            bindE (absorb_loop ops m faceNormals dpThresh p n1 vertexIdx es nts)
              (\<lambda>r. case r of (es', nts') \<Rightarrow> Inr ((k, t2) # es', nts'))))"

text \<open>
  The loop over \<open>it2\<close>, from \<open>start\<close> to \<open>end\<close>: every entry that is not yet clustered
  seeds a new vertex.
\<close>

function seed_loop ::
  "'f FloatOps \<Rightarrow> 'f TriMesh \<Rightarrow> 'f Normal list \<Rightarrow> 'f \<Rightarrow> 'f MMap \<Rightarrow> 'f NewMesh
     \<Rightarrow> error + 'f NewMesh" where
  "seed_loop ops m faceNormals dpThresh [] st = Inr st"
| "seed_loop ops m faceNormals dpThresh ((v, t1) # es) st =
     (case read_at faceNormals (t_idx t1) of
        Inl e \<Rightarrow> Inl e
      | Inr n1 \<Rightarrow>
          if clustered t1 then seed_loop ops m faceNormals dpThresh es st
          else
            let vertexIdx = (of_nat (length (newPositions st)) :: u32);
                st1 = st\<lparr>newPositions := newPositions st @ [v_p v],
                         newTexcoords := (if m_texcoords m \<noteq> None
                                          then newTexcoords st @ [v_uv v] else newTexcoords st),
                         newColors := (if m_colors m \<noteq> None
                                       then newColors st @ [v_col v] else newColors st)\<rparr>
            in
            (case absorb_loop ops m faceNormals dpThresh (v_p v) n1 vertexIdx ((v, t1) # es)
                    (newTriangles st1) of
               Inl e \<Rightarrow> Inl e
             | Inr (es', nts') \<Rightarrow>
                 seed_loop ops m faceNormals dpThresh (tl es') (st1\<lparr>newTriangles := nts'\<rparr>)))"
  by pat_completeness auto

lemma absorb_loop_length:
  "absorb_loop ops m faceNormals dpThresh p n1 vertexIdx es nts = Inr (es', nts')
     \<Longrightarrow> length es' = length es"
proof (induction es arbitrary: nts es' nts')
  case Nil
  then show ?case by simp
next
  case (Cons e es)
  obtain k t2 where e: "e = (k, t2)" by (cases e)
  from Cons.prems show ?case
    unfolding e
    by (auto simp: bindE_def split: if_splits sum.splits prod.splits dest: Cons.IH)
qed

termination seed_loop
proof (relation "measure (\<lambda>(ops, m, faceNormals, dpThresh, es, st). length es)", goal_cases)
  case 1
  show ?case by simp
next
  case 2
  show ?case by simp
next
  case (3 ops m faceNormals dpThresh v t1 es st n1 vertexIdx st1 r es' nts')
  from 3(5,6) have "absorb_loop ops m faceNormals dpThresh (v_p v) n1 vertexIdx ((v, t1) # es)
      (newTriangles st1) = Inr (es', nts')"
    by simp
  from absorb_loop_length [OF this] show ?case by simp
qed

text \<open>
  The outer loop: \<open>it\<close> runs over the ranges of equivalent keys.
\<close>

function cluster_loop ::
  "'f FloatOps \<Rightarrow> 'f TriMesh \<Rightarrow> 'f Normal list \<Rightarrow> 'f \<Rightarrow> 'f MMap \<Rightarrow> 'f NewMesh
     \<Rightarrow> error + 'f NewMesh" where
  "cluster_loop ops m faceNormals dpThresh [] st = Inr st"
| "cluster_loop ops m faceNormals dpThresh (e # es) st =
     (case seed_loop ops m faceNormals dpThresh
             (e # takeWhile (same_range ops (fst e)) es) st of
        Inl err \<Rightarrow> Inl err
      | Inr st' \<Rightarrow>
          cluster_loop ops m faceNormals dpThresh (dropWhile (same_range ops (fst e)) es) st')"
  by pat_completeness auto
termination
  by (relation "measure (\<lambda>(ops, m, faceNormals, dpThresh, es, st). length es)")
    (auto simp: less_Suc_eq_le length_dropWhile_le)

text \<open>
  \<open>for (i) for (j) Assert(newTriangles[i].idx[j] != 0xFFFFFFFFU)\<close>.
\<close>

definition all_assigned :: "Triangle \<Rightarrow> bool" where
  "all_assigned t \<longleftrightarrow> idx t 0 \<noteq> SENTINEL \<and> idx t 1 \<noteq> SENTINEL \<and> idx t 2 \<noteq> SENTINEL"

definition check_assigned :: "nat \<Rightarrow> Triangle list \<Rightarrow> error + unit" where
  "check_assigned n ts =
     foldE (\<lambda>i u. bindE (read_at ts i)
                     (\<lambda>t. if all_assigned t then Inr () else Inl EAssertionFailed))
       [0..<n] ()"

text \<open>
  \<open>rebuildTopology\<close> up to the call of \<open>configure\<close>: the normals and the tangent
  frames are dropped, the multimap is built, the vertices are clustered, the
  assertion is checked, and the arrays of the mesh are replaced.
\<close>

definition rebuild_cluster :: "'f FloatOps \<Rightarrow> 'f \<Rightarrow> 'f TriMesh \<Rightarrow> error + 'f TriMesh" where
  "rebuild_cluster ops maxAngle m0 =
     (let dpThresh = fcos ops (degToRad ops maxAngle);
          m = m0\<lparr>m_normals := None, m_tangents := None\<rparr>
      in
      bindE (foldE (build_step ops m) [0..<m_triangleCount m] ([], [], []))
        (\<lambda>r. case r of (vertexToFace, faceNormals, nts) \<Rightarrow>
      bindE (cluster_loop ops m faceNormals dpThresh vertexToFace
               \<lparr>newPositions = [], newTexcoords = [], newColors = [], newTriangles = nts\<rparr>)
        (\<lambda>st.
      bindE (check_assigned (m_triangleCount m) (newTriangles st)) (\<lambda>_.
        Inr (m\<lparr>m_triangles := newTriangles st,
               m_positions := newPositions st,
               m_texcoords := (if m_texcoords m \<noteq> None then Some (newTexcoords st) else None),
               m_colors := (if m_colors m \<noteq> None then Some (newColors st) else None),
               m_vertexCount := length (newPositions st)\<rparr>)))))"

definition rebuildTopology ::
  "'f FloatOps \<Rightarrow> 'f \<Rightarrow> 'f TriMesh \<Rightarrow> error + ('f TriMesh \<times> warning list)" where
  "rebuildTopology ops maxAngle m = bindE (rebuild_cluster ops maxAngle m) (configure ops)"

section \<open>The terms in which the clustering is stated\<close>

text \<open>
  An occurrence is a pair of a triangle \<open>i\<close> and a corner \<open>j\<close>. Its position, its key
  and the face normal of its triangle, as functions of the input mesh; and the
  relation that \<open>vertex_key_order\<close> induces on keys: neither is less than the other.
\<close>

definition corner_pos :: "'f TriMesh \<Rightarrow> nat \<Rightarrow> nat \<Rightarrow> 'f Point" where
  "corner_pos m i j = m_positions m ! unat (idx (m_triangles m ! i) j)"

definition corner_key :: "'f FloatOps \<Rightarrow> 'f TriMesh \<Rightarrow> nat \<Rightarrow> nat \<Rightarrow> 'f Vertex" where
  "corner_key ops m i j =
     \<lparr>v_p = corner_pos m i j,
      v_uv = (case m_texcoords m of
                None \<Rightarrow> Point2 (fzero ops) (fzero ops)
              | Some uvs \<Rightarrow> uvs ! unat (idx (m_triangles m ! i) j)),
      v_col = (case m_colors m of
                 None \<Rightarrow> vzero ops
               | Some cols \<Rightarrow> cols ! unat (idx (m_triangles m ! i) j))\<rparr>"

definition tri_normal :: "'f FloatOps \<Rightarrow> 'f TriMesh \<Rightarrow> nat \<Rightarrow> 'f Normal" where
  "tri_normal ops m i = face_normal ops (corner_pos m i 0) (corner_pos m i 1) (corner_pos m i 2)"

definition same_key :: "'f FloatOps \<Rightarrow> 'f Vertex \<Rightarrow> 'f Vertex \<Rightarrow> bool" where
  "same_key ops k1 k2 \<longleftrightarrow> \<not> key_less ops k1 k2 \<and> \<not> key_less ops k2 k1"

text \<open>
  The floats of a key, in the order in which \<open>compare\<close> looks at them, and the floats
  of all keys of a mesh.
\<close>

definition key_floats :: "'f Vertex \<Rightarrow> 'f list" where
  "key_floats k = [vx (v_p k), vy (v_p k), vz (v_p k), px (v_uv k), py (v_uv k),
                   vx (v_col k), vy (v_col k), vz (v_col k)]"

definition mesh_floats :: "'f FloatOps \<Rightarrow> 'f TriMesh \<Rightarrow> 'f set" where
  "mesh_floats ops m =
     (\<Union>i \<in> {..<m_triangleCount m}. \<Union>j \<in> {..<3}. set (key_floats (corner_key ops m i j)))"

text \<open>
  The comparisons of the floats of a mesh behave as those of numbers do: \<open><\<close> is a strict
  weak order and \<open>==\<close> holds where neither is less. (For IEEE 754: no float of the mesh is
  NaN.)
\<close>

definition ordered_floats :: "'f FloatOps \<Rightarrow> 'f set \<Rightarrow> bool" where
  "ordered_floats ops S \<longleftrightarrow>
     (\<forall>a \<in> S. \<not> flt ops a a) \<and>
     (\<forall>a \<in> S. \<forall>b \<in> S. \<forall>c \<in> S. flt ops a b \<and> flt ops b c \<longrightarrow> flt ops a c) \<and>
     (\<forall>a \<in> S. \<forall>b \<in> S. \<forall>c \<in> S.
        \<not> flt ops a b \<and> \<not> flt ops b a \<and> \<not> flt ops b c \<and> \<not> flt ops c b
          \<longrightarrow> \<not> flt ops a c \<and> \<not> flt ops c a) \<and>
     (\<forall>a \<in> S. \<forall>b \<in> S. feq ops a b \<longleftrightarrow> \<not> flt ops a b \<and> \<not> flt ops b a)"

text \<open>
  No triangle has two corners at the same position (\<open>operator==\<close>); and the face normals
  of any two triangles that have corners with the same key pass the test of the
  clustering.
\<close>

definition distinct_corners :: "'f FloatOps \<Rightarrow> 'f TriMesh \<Rightarrow> bool" where
  "distinct_corners ops m \<longleftrightarrow>
     (\<forall>i < m_triangleCount m. \<forall>j < 3. \<forall>j' < 3.
        j \<noteq> j' \<longrightarrow> \<not> veq ops (corner_pos m i j) (corner_pos m i j'))"

definition normals_mergeable :: "'f FloatOps \<Rightarrow> 'f \<Rightarrow> 'f TriMesh \<Rightarrow> bool" where
  "normals_mergeable ops maxAngle m \<longleftrightarrow>
     (\<forall>i < m_triangleCount m. \<forall>i' < m_triangleCount m. \<forall>j < 3. \<forall>j' < 3.
        same_key ops (corner_key ops m i j) (corner_key ops m i' j')
          \<longrightarrow> mergeable ops (fcos ops (degToRad ops maxAngle))
                (tri_normal ops m i) (tri_normal ops m i'))"

text \<open>
  The corner of an output triangle at which corner \<open>j\<close> of the input triangle is
  found: \<open>configure\<close> calls \<open>computeNormals\<close>, which exchanges the first two indices
  of every triangle when the mesh has face normals and is flipped.
\<close>

definition final_corner :: "'f TriMesh \<Rightarrow> nat \<Rightarrow> nat" where
  "final_corner m j =
     (if m_faceNormals m \<and> m_flipNormals m then (if j = 0 then 1 else if j = 1 then 0 else j)
      else j)"

section \<open>The terms of the proof of the clustering\<close>

text \<open>
  \<open>compare\<close> is the lexicographic comparison of the floats of the two keys.
\<close>

fun lex_cmp :: "'f FloatOps \<Rightarrow> 'f list \<Rightarrow> 'f list \<Rightarrow> int" where
  "lex_cmp ops (a # as) (b # bs) = cmp_float ops a b (lex_cmp ops as bs)"
| "lex_cmp ops [] bs = 0"
| "lex_cmp ops as [] = 0"

text \<open>
  What the clustering needs of the keys \<open>K\<close> of a mesh: \<open>vertex_key_order\<close> is a strict
  weak order on them, keys that it holds equivalent have equal positions, and
  \<open>operator==\<close> on their positions is transitive.
\<close>

definition key_order :: "'f FloatOps \<Rightarrow> 'f Vertex set \<Rightarrow> bool" where
  "key_order ops K \<longleftrightarrow>
     (\<forall>a \<in> K. \<not> key_less ops a a) \<and>
     (\<forall>a \<in> K. \<forall>b \<in> K. \<forall>c \<in> K. key_less ops a b \<and> key_less ops b c \<longrightarrow> key_less ops a c) \<and>
     (\<forall>a \<in> K. \<forall>b \<in> K. \<forall>c \<in> K. same_key ops a b \<and> same_key ops b c \<longrightarrow> same_key ops a c) \<and>
     (\<forall>a \<in> K. \<forall>b \<in> K. same_key ops a b \<longrightarrow> veq ops (v_p a) (v_p b)) \<and>
     (\<forall>a \<in> K. \<forall>b \<in> K. \<forall>c \<in> K.
        veq ops (v_p a) (v_p c) \<and> veq ops (v_p b) (v_p c) \<longrightarrow> veq ops (v_p a) (v_p b))"

definition mesh_keys :: "'f FloatOps \<Rightarrow> 'f TriMesh \<Rightarrow> 'f Vertex set" where
  "mesh_keys ops m = {corner_key ops m i j | i j. i < m_triangleCount m \<and> j < 3}"

text \<open>
  The entry that the first loop inserts for corner \<open>j\<close> of triangle \<open>i\<close>, the multimap
  after the first \<open>n\<close> triangles, the order of a multimap, and an entry after it has
  been absorbed.
\<close>

definition occ_entry :: "'f FloatOps \<Rightarrow> 'f TriMesh \<Rightarrow> nat \<Rightarrow> nat \<Rightarrow> 'f Vertex \<times> TopoData" where
  "occ_entry ops m i j = (corner_key ops m i j, \<lparr>t_idx = i, clustered = False\<rparr>)"

primrec inserted :: "'f FloatOps \<Rightarrow> 'f TriMesh \<Rightarrow> nat \<Rightarrow> 'f MMap" where
  "inserted ops m 0 = []"
| "inserted ops m (Suc i) =
     mm_insert ops (occ_entry ops m i 2)
       (mm_insert ops (occ_entry ops m i 1)
          (mm_insert ops (occ_entry ops m i 0) (inserted ops m i)))"

definition key_sorted :: "'f FloatOps \<Rightarrow> 'f MMap \<Rightarrow> bool" where
  "key_sorted ops xs = sorted_wrt (\<lambda>a b. \<not> key_less ops (fst b) (fst a)) xs"

definition mark :: "'f Vertex \<times> TopoData \<Rightarrow> 'f Vertex \<times> TopoData" where
  "mark x = (fst x, (snd x)\<lparr>clustered := True\<rparr>)"

section \<open>The stream\<close>

text \<open>
  Modelled from the spec: the typed stream (\<open>Stream\<close>, \<open>FileStream\<close>, \<open>ZStream\<close> are
  not among the sources). A stream is a sequence of bytes with a position and a byte
  order for its integers; \<open>read\<close> of more bytes than remain is the stream's fatal
  error; \<open>seek\<close>
  sets the position (also past the end), \<open>skip\<close> advances it, \<open>getSize\<close> is the
  number of bytes. The journal records every operation on the stream, so that what a
  function does to it can be stated.
\<close>

type_synonym byte = "8 word"
type_synonym u16 = "16 word"
type_synonym u64 = "64 word"

datatype EByteOrder = EBigEndian | ELittleEndian

datatype stream_op = OpRead nat nat | OpWrite nat nat | OpSeek nat | OpSkip nat | OpGetSize

record Stream =
  s_data :: "byte list"
  s_pos :: nat
  s_order :: EByteOrder
  s_journal :: "stream_op list"

text \<open>The bytes of an integer, least significant first, and back.\<close>

primrec le_bytes :: "nat \<Rightarrow> 'a::len word \<Rightarrow> byte list" where
  "le_bytes 0 w = []"
| "le_bytes (Suc n) w = ucast w # le_bytes n (drop_bit 8 w)"

primrec le_word :: "byte list \<Rightarrow> 'a::len word" where
  "le_word [] = 0"
| "le_word (b # bs) = ucast b OR push_bit 8 (le_word bs)"

definition encode :: "EByteOrder \<Rightarrow> nat \<Rightarrow> 'a::len word \<Rightarrow> byte list" where
  "encode order n w = (if order = ELittleEndian then le_bytes n w else rev (le_bytes n w))"

definition decode :: "EByteOrder \<Rightarrow> byte list \<Rightarrow> 'a::len word" where
  "decode order bs = le_word (if order = ELittleEndian then bs else rev bs)"

definition read_bytes :: "nat \<Rightarrow> Stream \<Rightarrow> error + (byte list \<times> Stream)" where
  "read_bytes n s =
     (if n \<le> length (drop (s_pos s) (s_data s))
      then Inr (take n (drop (s_pos s) (s_data s)),
                s\<lparr>s_pos := s_pos s + n, s_journal := s_journal s @ [OpRead (s_pos s) n]\<rparr>)
      else Inl EStreamEOF)"

text \<open>
  A write replaces the bytes at the position and extends the stream where it ends; a
  gap left by a seek past the end is filled with zero bytes.
\<close>

definition write_bytes :: "byte list \<Rightarrow> Stream \<Rightarrow> Stream" where
  "write_bytes bs s =
     s\<lparr>s_data := take (s_pos s) (s_data s) @ replicate (s_pos s - length (s_data s)) 0
                    @ bs @ drop (s_pos s + length bs) (s_data s),
       s_pos := s_pos s + length bs,
       s_journal := s_journal s @ [OpWrite (s_pos s) (length bs)]\<rparr>"

definition seek :: "nat \<Rightarrow> Stream \<Rightarrow> Stream" where
  "seek p s = s\<lparr>s_pos := p, s_journal := s_journal s @ [OpSeek p]\<rparr>"

definition skip :: "nat \<Rightarrow> Stream \<Rightarrow> Stream" where
  "skip n s = s\<lparr>s_pos := s_pos s + n, s_journal := s_journal s @ [OpSkip n]\<rparr>"

definition getSize :: "Stream \<Rightarrow> u64 \<times> Stream" where
  "getSize s = (of_nat (length (s_data s)), s\<lparr>s_journal := s_journal s @ [OpGetSize]\<rparr>)"

definition read_word :: "nat \<Rightarrow> Stream \<Rightarrow> error + ('a::len word \<times> Stream)" where
  "read_word n s = bindE (read_bytes n s) (\<lambda>r. case r of (bs, s') \<Rightarrow> Inr (decode (s_order s) bs, s'))"

definition readShort :: "Stream \<Rightarrow> error + (u16 \<times> Stream)" where
  "readShort = read_word 2"

definition readUInt :: "Stream \<Rightarrow> error + (u32 \<times> Stream)" where
  "readUInt = read_word 4"

definition readSize :: "Stream \<Rightarrow> error + (u64 \<times> Stream)" where
  "readSize = read_word 8"

definition writeShort :: "u16 \<Rightarrow> Stream \<Rightarrow> Stream" where
  "writeShort w s = write_bytes (encode (s_order s) 2 w) s"

definition writeUInt :: "u32 \<Rightarrow> Stream \<Rightarrow> Stream" where
  "writeUInt w s = write_bytes (encode (s_order s) 4 w) s"

definition writeSize :: "nat \<Rightarrow> Stream \<Rightarrow> Stream" where
  "writeSize n s = write_bytes (encode (s_order s) 8 (of_nat n :: u64)) s"

text \<open>
  An array of \<open>count\<close> elements of \<open>width\<close> bytes each is read in one piece and decoded
  element by element.
\<close>

primrec split_elems :: "nat \<Rightarrow> nat \<Rightarrow> byte list \<Rightarrow> byte list list" where
  "split_elems 0 width bs = []"
| "split_elems (Suc k) width bs = take width bs # split_elems k width (drop width bs)"

definition read_array ::
  "nat \<Rightarrow> nat \<Rightarrow> (byte list \<Rightarrow> 'a) \<Rightarrow> Stream \<Rightarrow> error + ('a list \<times> Stream)" where
  "read_array count width dec s =
     bindE (read_bytes (count * width) s)
       (\<lambda>r. case r of (bs, s') \<Rightarrow> Inr (map dec (split_elems count width bs), s'))"

definition readUIntArray :: "nat \<Rightarrow> Stream \<Rightarrow> error + (u32 list \<times> Stream)" where
  "readUIntArray count s = read_array count 4 (decode (s_order s)) s"

definition writeUIntArray :: "u32 list \<Rightarrow> Stream \<Rightarrow> Stream" where
  "writeUIntArray ws s = write_bytes (concat (map (encode (s_order s) 4) ws)) s"

text \<open>
  What the platform and the stream library contribute, as parameters: the build's
  float width (\<open>SINGLE_PRECISION\<close>) and the byte order a newly constructed stream has
  (the host's); how one \<open>Float\<close> is written and read in the native width; how a
  stored double and a stored single are read and cast to \<open>Float\<close>; how a string is
  written, and read from the bytes that follow (the string and the number of bytes it
  took); and the compression behind \<open>ZStream\<close>.
\<close>

record 'f StreamOps =
  hostDoublePrecision :: bool
  hostByteOrder :: EByteOrder
  writeFloat :: "EByteOrder \<Rightarrow> 'f \<Rightarrow> byte list"
  readFloat :: "EByteOrder \<Rightarrow> byte list \<Rightarrow> 'f"
  readDouble :: "EByteOrder \<Rightarrow> byte list \<Rightarrow> 'f"
  readSingle :: "EByteOrder \<Rightarrow> byte list \<Rightarrow> 'f"
  writeString_bytes :: "EByteOrder \<Rightarrow> string \<Rightarrow> byte list"
  readString_bytes :: "EByteOrder \<Rightarrow> byte list \<Rightarrow> (string \<times> nat) option"
  deflate :: "byte list \<Rightarrow> byte list"
  inflate :: "byte list \<Rightarrow> byte list option"

definition floatWidth :: "'f StreamOps \<Rightarrow> nat" where
  "floatWidth io = (if hostDoublePrecision io then 8 else 4)"

definition readFloatArray :: "'f StreamOps \<Rightarrow> nat \<Rightarrow> Stream \<Rightarrow> error + ('f list \<times> Stream)" where
  "readFloatArray io count s = read_array count (floatWidth io) (readFloat io (s_order s)) s"

definition readDoubleArray :: "'f StreamOps \<Rightarrow> nat \<Rightarrow> Stream \<Rightarrow> error + ('f list \<times> Stream)" where
  "readDoubleArray io count s = read_array count 8 (readDouble io (s_order s)) s"

definition readSingleArray :: "'f StreamOps \<Rightarrow> nat \<Rightarrow> Stream \<Rightarrow> error + ('f list \<times> Stream)" where
  "readSingleArray io count s = read_array count 4 (readSingle io (s_order s)) s"

definition writeFloatArray :: "'f StreamOps \<Rightarrow> 'f list \<Rightarrow> Stream \<Rightarrow> Stream" where
  "writeFloatArray io xs s = write_bytes (concat (map (writeFloat io (s_order s)) xs)) s"

definition readString :: "'f StreamOps \<Rightarrow> Stream \<Rightarrow> error + (string \<times> Stream)" where
  "readString io s =
     (case readString_bytes io (s_order s) (drop (s_pos s) (s_data s)) of
        None \<Rightarrow> Inl EStreamEOF
      | Some (str, n) \<Rightarrow>
          if n \<le> length (drop (s_pos s) (s_data s))
          then Inr (str, s\<lparr>s_pos := s_pos s + n, s_journal := s_journal s @ [OpRead (s_pos s) n]\<rparr>)
          else Inl EStreamEOF)"

definition writeString :: "'f StreamOps \<Rightarrow> string \<Rightarrow> Stream \<Rightarrow> Stream" where
  "writeString io str s = write_bytes (writeString_bytes io (s_order s) str) s"

text \<open>
  \<open>new ZStream(stream)\<close>. For reading it is the stream of the bytes that the child's
  bytes from its position decompress to; for writing it collects what is written and,
  when it is released at the end of \<open>serialize\<close>, the child receives the compressed
  bytes. Either is a new stream, with the byte order of the host.
\<close>

definition zstream_reader :: "'f StreamOps \<Rightarrow> Stream \<Rightarrow> error + Stream" where
  "zstream_reader io child =
     (case inflate io (drop (s_pos child) (s_data child)) of
        None \<Rightarrow> Inl EInflate
      | Some body \<Rightarrow> Inr \<lparr>s_data = body, s_pos = 0, s_order = hostByteOrder io, s_journal = []\<rparr>)"

definition zstream_writer :: "'f StreamOps \<Rightarrow> Stream" where
  "zstream_writer io = \<lparr>s_data = [], s_pos = 0, s_order = hostByteOrder io, s_journal = []\<rparr>"

definition zstream_close :: "'f StreamOps \<Rightarrow> Stream \<Rightarrow> Stream \<Rightarrow> Stream" where
  "zstream_close io z child = write_bytes (deflate io (s_data z)) child"

section \<open>The standalone format\<close>

definition MTS_FILEFORMAT_HEADER :: u16 where "MTS_FILEFORMAT_HEADER = 0x041C"
definition MTS_FILEFORMAT_VERSION_V3 :: u16 where "MTS_FILEFORMAT_VERSION_V3 = 0x0003"
definition MTS_FILEFORMAT_VERSION_V4 :: u16 where "MTS_FILEFORMAT_VERSION_V4 = 0x0004"

definition EHasNormals :: u32 where "EHasNormals = 0x0001"
definition EHasTexcoords :: u32 where "EHasTexcoords = 0x0002"
definition EHasTangents :: u32 where "EHasTangents = 0x0004"
definition EHasColors :: u32 where "EHasColors = 0x0008"
definition EFaceNormals :: u32 where "EFaceNormals = 0x0010"
definition ESinglePrecision :: u32 where "ESinglePrecision = 0x1000"
definition EDoublePrecision :: u32 where "EDoublePrecision = 0x2000"

text \<open>\<open>flags & bit\<close> as a condition.\<close>

definition has_flag :: "u32 \<Rightarrow> u32 \<Rightarrow> bool" where
  "has_flag flags b \<longleftrightarrow> flags AND b \<noteq> 0"

text \<open>
  \<open>reinterpret_cast\<close> between an array of points, normals, colours or triangles and
  the array of their components.
\<close>

definition floats_of_vectors :: "'f Vector list \<Rightarrow> 'f list" where
  "floats_of_vectors vs = concat (map (\<lambda>v. [vx v, vy v, vz v]) vs)"

definition floats_of_point2s :: "'f Point2 list \<Rightarrow> 'f list" where
  "floats_of_point2s vs = concat (map (\<lambda>v. [px v, py v]) vs)"

definition uints_of_triangles :: "Triangle list \<Rightarrow> u32 list" where
  "uints_of_triangles ts = concat (map (\<lambda>t. [idx0 t, idx1 t, idx2 t]) ts)"

fun vectors_of_floats :: "'f list \<Rightarrow> 'f Vector list" where
  "vectors_of_floats (a # b # c # xs) = Vector a b c # vectors_of_floats xs"
| "vectors_of_floats _ = []"

fun point2s_of_floats :: "'f list \<Rightarrow> 'f Point2 list" where
  "point2s_of_floats (a # b # xs) = Point2 a b # point2s_of_floats xs"
| "point2s_of_floats _ = []"

fun triangles_of_uints :: "u32 list \<Rightarrow> Triangle list" where
  "triangles_of_uints (a # b # c # xs) = Triangle a b c # triangles_of_uints xs"
| "triangles_of_uints _ = []"

text \<open>
  \<open>readHelper\<close>: \<open>count * nelems\<close> floats, read in the file's precision and cast to the
  host's where the two differ.
\<close>

definition readHelper ::
  "'f StreamOps \<Rightarrow> Stream \<Rightarrow> bool \<Rightarrow> nat \<Rightarrow> nat \<Rightarrow> error + ('f list \<times> Stream)" where
  "readHelper io stream fileDoublePrecision count nelems =
     (let size = count * nelems in
      if fileDoublePrecision = hostDoublePrecision io then readFloatArray io size stream
      else if fileDoublePrecision then readDoubleArray io size stream
      else readSingleArray io size stream)"

text \<open>
  The block \<open>if (index != 0) { ... }\<close> of \<open>loadCompressed\<close>: the position of the
  requested segment is looked up in the table at the end of the file. \<open>index\<close> is
  an \<open>int\<close>: 32 bits, read as a signed number by \<open>sint\<close>; \<open>count\<close> is a \<open>uint32_t\<close>, so
  \<open>count-index\<close> is computed in 32 bits without sign; the sizes and offsets are
  \<open>size_t\<close>, 64 bits.
\<close>

definition seekToSegment :: "Stream \<Rightarrow> u16 \<Rightarrow> u32 \<Rightarrow> error + Stream" where
  "seekToSegment stream version index =
     (case getSize stream of (streamSize, s1) \<Rightarrow>
      let s2 = seek (unat (streamSize - 4)) s1 in
      bindE (readUInt s2) (\<lambda>r. case r of (count, s3) \<Rightarrow>
        if sint index < 0 \<or> sint index > sint count then Inl EIndexOutOfRange
        else
          bindE
            (if version = MTS_FILEFORMAT_VERSION_V4 then
               (case getSize s3 of (size', s4) \<Rightarrow>
                let s5 = seek (unat (size' - 8 * ucast (count - index) - 4)) s4 in
                bindE (readSize s5) (\<lambda>r. case r of (offset, s6) \<Rightarrow> Inr (seek (unat offset) s6)))
             else
               (case getSize s3 of (size', s4) \<Rightarrow>
                let s5 = seek (unat (size' - 4 * ucast (count - index + 1))) s4 in
                bindE (readUInt s5) (\<lambda>r. case r of (offset, s6) \<Rightarrow> Inr (seek (unat offset) s6))))
            (\<lambda>s7. Inr (skip 4 s7))))"

text \<open>
  The rest of \<open>loadCompressed\<close>, from \<open>stream = new ZStream(stream)\<close> on: the fields of
  the mesh are read from the decompressed body. The arrays that are not read become
  \<open>NULL\<close>; \<open>m_tangents\<close>, the material and the distribution are not touched.
\<close>

definition readOptional ::
  "bool \<Rightarrow> (Stream \<Rightarrow> error + ('a \<times> Stream)) \<Rightarrow> Stream \<Rightarrow> error + ('a option \<times> Stream)" where
  "readOptional present rd s =
     (if present then bindE (rd s) (\<lambda>r. case r of (v, s') \<Rightarrow> Inr (Some v, s')) else Inr (None, s))"

definition readBody ::
  "'f FloatOps \<Rightarrow> 'f StreamOps \<Rightarrow> Stream \<Rightarrow> u16 \<Rightarrow> 'f TriMesh \<Rightarrow> error + 'f TriMesh" where
  "readBody ops io stream version m =
     bindE (readUInt stream) (\<lambda>r. case r of (flags, s1) \<Rightarrow>
     bindE (if version = MTS_FILEFORMAT_VERSION_V4 then readString io s1 else Inr (m_name m, s1))
       (\<lambda>r. case r of (name, s2) \<Rightarrow>
     bindE (readSize s2) (\<lambda>r. case r of (vertexCount, s3) \<Rightarrow>
     bindE (readSize s3) (\<lambda>r. case r of (triangleCount, s4) \<Rightarrow>
       let fileDoublePrecision = has_flag flags EDoublePrecision;
           vc = unat vertexCount; tc = unat triangleCount
       in
     bindE (readHelper io s4 fileDoublePrecision vc 3) (\<lambda>r. case r of (positions, s5) \<Rightarrow>
     bindE (readOptional (has_flag flags EHasNormals)
              (\<lambda>s. readHelper io s fileDoublePrecision vc 3) s5) (\<lambda>r. case r of (normals, s6) \<Rightarrow>
     bindE (readOptional (has_flag flags EHasTexcoords)
              (\<lambda>s. readHelper io s fileDoublePrecision vc 2) s6) (\<lambda>r. case r of (texcoords, s7) \<Rightarrow>
     bindE (readOptional (has_flag flags EHasColors)
              (\<lambda>s. readHelper io s fileDoublePrecision vc 3) s7) (\<lambda>r. case r of (colors, s8) \<Rightarrow>
     bindE (readUIntArray (tc * 3) s8) (\<lambda>r. case r of (indices, s9) \<Rightarrow>
       Inr (m\<lparr>m_name := name,
              m_vertexCount := vc,
              m_triangleCount := tc,
              m_faceNormals := has_flag flags EFaceNormals,
              m_positions := vectors_of_floats positions,
              m_normals := map_option vectors_of_floats normals,
              m_texcoords := map_option point2s_of_floats texcoords,
              m_colors := map_option vectors_of_floats colors,
              m_triangles := triangles_of_uints indices,
              m_surfaceArea := fneg ops (fone ops),
              m_invSurfaceArea := fneg ops (fone ops),
              m_flipNormals := False\<rparr>))))))))))"

text \<open>
  \<open>loadCompressed\<close>. Besides the mesh the result holds the underlying stream as it is
  when the decompression view is opened on it.
\<close>

definition loadCompressed ::
  "'f FloatOps \<Rightarrow> 'f StreamOps \<Rightarrow> Stream \<Rightarrow> u32 \<Rightarrow> 'f TriMesh \<Rightarrow> error + ('f TriMesh \<times> Stream)" where
  "loadCompressed ops io stream index m =
     (if s_order stream \<noteq> ELittleEndian then Inl ENotLittleEndian
      else
        bindE (readShort stream) (\<lambda>r. case r of (format, s1) \<Rightarrow>
        if format = 0x1C04 then Inl ELegacyFormat
        else if format \<noteq> MTS_FILEFORMAT_HEADER then Inl EInvalidFormat
        else
          bindE (readShort s1) (\<lambda>r. case r of (version, s2) \<Rightarrow>
          if version \<noteq> MTS_FILEFORMAT_VERSION_V3 \<and> version \<noteq> MTS_FILEFORMAT_VERSION_V4
          then Inl EIncompatibleVersion
          else
            bindE (if index \<noteq> 0 then seekToSegment s2 version index else Inr s2) (\<lambda>s3.
            bindE (zstream_reader io s3) (\<lambda>z.
            bindE (readBody ops io (z\<lparr>s_order := ELittleEndian\<rparr>) version m) (\<lambda>m'.
              Inr (m', s3)))))))"

text \<open>
  Two streams that have the same byte order and the same bytes from their positions
  on; they may differ in their sizes and in everything before the positions.
\<close>

definition same_ahead :: "Stream \<Rightarrow> Stream \<Rightarrow> bool" where
  "same_ahead s t \<longleftrightarrow> s_order s = s_order t \<and>
     drop (s_pos s) (s_data s) = drop (s_pos t) (s_data t)"

section \<open>serialize\<close>

text \<open>
  \<open>serialize(Stream *)\<close>: the header goes to the stream itself, the body through a
  \<open>ZStream\<close> whose byte order is not set. The result is the stream after the
  \<open>ZStream\<close> has been released.
\<close>

definition serialize_flags :: "'f StreamOps \<Rightarrow> 'f TriMesh \<Rightarrow> u32" where
  "serialize_flags io m =
     (if hostDoublePrecision io then EDoublePrecision else ESinglePrecision)
       OR (if m_normals m \<noteq> None then EHasNormals else 0)
       OR (if m_texcoords m \<noteq> None then EHasTexcoords else 0)
       OR (if m_colors m \<noteq> None then EHasColors else 0)
       OR (if m_faceNormals m then EFaceNormals else 0)"

text \<open>
  \<open>writeFloatArray(reinterpret_cast<Float *>(array), n)\<close> and the same for the
  indices: the first \<open>n\<close> components of the array, which must have that many.
\<close>

definition first_n :: "nat \<Rightarrow> 'a list \<Rightarrow> error + 'a list" where
  "first_n n xs = (if n \<le> length xs then Inr (take n xs) else Inl EOutOfBounds)"

definition writeOptional :: "'a option \<Rightarrow> ('a \<Rightarrow> Stream \<Rightarrow> error + Stream) \<Rightarrow> Stream \<Rightarrow> error + Stream" where
  "writeOptional a wr s = (case a of None \<Rightarrow> Inr s | Some v \<Rightarrow> wr v s)"

definition writeFloats :: "'f StreamOps \<Rightarrow> nat \<Rightarrow> 'f list \<Rightarrow> Stream \<Rightarrow> error + Stream" where
  "writeFloats io n xs s = bindE (first_n n xs) (\<lambda>ys. Inr (writeFloatArray io ys s))"

definition serialize :: "'f StreamOps \<Rightarrow> Stream \<Rightarrow> 'f TriMesh \<Rightarrow> error + Stream" where
  "serialize io stream m =
     (if s_order stream \<noteq> ELittleEndian then Inl ENotLittleEndian
      else
        let s1 = writeShort MTS_FILEFORMAT_HEADER stream;
            s2 = writeShort MTS_FILEFORMAT_VERSION_V4 s1;
            z0 = zstream_writer io;
            z1 = writeUInt (serialize_flags io m) z0;
            z2 = writeString io (m_name m) z1;
            z3 = writeSize (m_vertexCount m) z2;
            z4 = writeSize (m_triangleCount m) z3
        in
        bindE (writeFloats io (m_vertexCount m * 3) (floats_of_vectors (m_positions m)) z4) (\<lambda>z5.
        bindE (writeOptional (m_normals m)
                 (\<lambda>a. writeFloats io (m_vertexCount m * 3) (floats_of_vectors a)) z5) (\<lambda>z6.
        bindE (writeOptional (m_texcoords m)
                 (\<lambda>a. writeFloats io (m_vertexCount m * 2) (floats_of_point2s a)) z6) (\<lambda>z7.
        bindE (writeOptional (m_colors m)
                 (\<lambda>a. writeFloats io (m_vertexCount m * 3) (floats_of_vectors a)) z7) (\<lambda>z8.
        bindE (first_n (m_triangleCount m * 3) (uints_of_triangles (m_triangles m))) (\<lambda>indices.
          Inr (zstream_close io (writeUIntArray indices z8) s2)))))))"

section \<open>What serialize writes and what loadCompressed makes of it\<close>

text \<open>
  The bytes that \<open>serialize\<close> hands to the compression, field by field, in the byte
  order of the \<open>ZStream\<close>.
\<close>

definition float_bytes :: "'f StreamOps \<Rightarrow> 'f list \<Rightarrow> byte list" where
  "float_bytes io xs = concat (map (writeFloat io (hostByteOrder io)) xs)"

definition optional_bytes :: "('a \<Rightarrow> byte list) \<Rightarrow> 'a option \<Rightarrow> byte list" where
  "optional_bytes enc a = (case a of None \<Rightarrow> [] | Some v \<Rightarrow> enc v)"

definition body_bytes :: "'f StreamOps \<Rightarrow> 'f TriMesh \<Rightarrow> byte list" where
  "body_bytes io m =
     encode (hostByteOrder io) 4 (serialize_flags io m)
     @ writeString_bytes io (hostByteOrder io) (m_name m)
     @ encode (hostByteOrder io) 8 (of_nat (m_vertexCount m) :: u64)
     @ encode (hostByteOrder io) 8 (of_nat (m_triangleCount m) :: u64)
     @ float_bytes io (floats_of_vectors (m_positions m))
     @ optional_bytes (\<lambda>a. float_bytes io (floats_of_vectors a)) (m_normals m)
     @ optional_bytes (\<lambda>a. float_bytes io (floats_of_point2s a)) (m_texcoords m)
     @ optional_bytes (\<lambda>a. float_bytes io (floats_of_vectors a)) (m_colors m)
     @ concat (map (encode (hostByteOrder io) 4) (uints_of_triangles (m_triangles m)))"

text \<open>
  One float as the reader \<open>io_r\<close> gets it from what the writer \<open>io_w\<close> stored: read as
  it is when both have the same width, cast from the stored double or single when
  they do not.
\<close>

definition reread :: "'f StreamOps \<Rightarrow> 'f StreamOps \<Rightarrow> 'f \<Rightarrow> 'f" where
  "reread io_w io_r v =
     (let bs = writeFloat io_w ELittleEndian v in
      if hostDoublePrecision io_w = hostDoublePrecision io_r then readFloat io_r ELittleEndian bs
      else if hostDoublePrecision io_w then readDouble io_r ELittleEndian bs
      else readSingle io_r ELittleEndian bs)"

definition reread2 :: "'f StreamOps \<Rightarrow> 'f StreamOps \<Rightarrow> 'f Point2 \<Rightarrow> 'f Point2" where
  "reread2 io_w io_r v = Point2 (reread io_w io_r (px v)) (reread io_w io_r (py v))"

definition reread3 :: "'f StreamOps \<Rightarrow> 'f StreamOps \<Rightarrow> 'f Vector \<Rightarrow> 'f Vector" where
  "reread3 io_w io_r v =
     Vector (reread io_w io_r (vx v)) (reread io_w io_r (vy v)) (reread io_w io_r (vz v))"

text \<open>
  What the round trip asks of the stream library: the writer's \<open>ZStream\<close> has the
  byte order the reader sets (little endian); a float takes the bytes of the
  writer's width; the reader gets the name back from the bytes the writer made of it;
  and decompression returns the body from the compressed bytes, whatever follows
  them in the stream. The counts are \<open>size_t\<close>: below \<open>2^64\<close>.
\<close>

definition stream_tail :: "'f StreamOps \<Rightarrow> Stream \<Rightarrow> 'f TriMesh \<Rightarrow> byte list" where
  "stream_tail io s m = drop (s_pos s + 4 + length (deflate io (body_bytes io m))) (s_data s)"

definition codec_agrees :: "'f StreamOps \<Rightarrow> 'f StreamOps \<Rightarrow> Stream \<Rightarrow> 'f TriMesh \<Rightarrow> bool" where
  "codec_agrees io_w io_r s m \<longleftrightarrow>
     hostByteOrder io_w = ELittleEndian \<and>
     (\<forall>v. length (writeFloat io_w ELittleEndian v) = floatWidth io_w) \<and>
     (\<forall>rest. readString_bytes io_r ELittleEndian
               (writeString_bytes io_w ELittleEndian (m_name m) @ rest)
             = Some (m_name m, length (writeString_bytes io_w ELittleEndian (m_name m)))) \<and>
     inflate io_r (deflate io_w (body_bytes io_w m) @ stream_tail io_w s m)
       = Some (body_bytes io_w m) \<and>
     m_vertexCount m < 2 ^ 64 \<and> m_triangleCount m < 2 ^ 64"

text \<open>
  The bytes a stream has from its position on; a stream whose position is its end;
  and the mesh \<open>m0\<close> after it has loaded what was written of \<open>m\<close>.
\<close>

definition ahead :: "Stream \<Rightarrow> byte list" where
  "ahead s = drop (s_pos s) (s_data s)"

definition at_end :: "Stream \<Rightarrow> bool" where
  "at_end z \<longleftrightarrow> s_pos z = length (s_data z)"

definition reloaded :: "'f FloatOps \<Rightarrow> 'f StreamOps \<Rightarrow> 'f StreamOps \<Rightarrow> 'f TriMesh \<Rightarrow> 'f TriMesh \<Rightarrow> 'f TriMesh" where
  "reloaded ops io_w io_r m m0 = m0\<lparr>
     m_name := m_name m,
     m_vertexCount := m_vertexCount m,
     m_triangleCount := m_triangleCount m,
     m_faceNormals := m_faceNormals m,
     m_positions := map (reread3 io_w io_r) (m_positions m),
     m_normals := map_option (map (reread3 io_w io_r)) (m_normals m),
     m_texcoords := map_option (map (reread2 io_w io_r)) (m_texcoords m),
     m_colors := map_option (map (reread3 io_w io_r)) (m_colors m),
     m_triangles := m_triangles m,
     m_surfaceArea := fneg ops (fone ops),
     m_invSurfaceArea := fneg ops (fone ops),
     m_flipNormals := False\<rparr>"

section \<open>A concrete arithmetic for evaluating the model\<close>

text \<open>
  The theorems below hold for every \<open>FloatOps\<close>. To run the model on a concrete mesh
  one instance is fixed here: the finite reals, the two infinities and NaN, with the
  special cases of IEEE 754 (\<open>1/0 = \<infinity>\<close>, \<open>0 \<sdot> \<infinity> = NaN\<close>, \<open>\<infinity> - \<infinity> = NaN\<close>, every
  comparison with NaN false) and no rounding. On the inputs evaluated in this theory
  (coordinates 0, 1 and -1) every operation of binary floating point is exact, so the
  instance computes what the program computes there.
\<close>

datatype xfloat = Fin real | PInf | NInf | NaN

fun xneg :: "xfloat \<Rightarrow> xfloat" where
  "xneg (Fin a) = Fin (- a)"
| "xneg PInf = NInf"
| "xneg NInf = PInf"
| "xneg NaN = NaN"

fun xadd :: "xfloat \<Rightarrow> xfloat \<Rightarrow> xfloat" where
  "xadd (Fin a) (Fin b) = Fin (a + b)"
| "xadd NaN _ = NaN"
| "xadd _ NaN = NaN"
| "xadd PInf NInf = NaN"
| "xadd NInf PInf = NaN"
| "xadd PInf _ = PInf"
| "xadd NInf _ = NInf"
| "xadd (Fin a) b = b"

definition xsub :: "xfloat \<Rightarrow> xfloat \<Rightarrow> xfloat" where
  "xsub a b = xadd a (xneg b)"

definition xinf :: "bool \<Rightarrow> xfloat" where
  "xinf positive = (if positive then PInf else NInf)"

fun xmul :: "xfloat \<Rightarrow> xfloat \<Rightarrow> xfloat" where
  "xmul (Fin a) (Fin b) = Fin (a * b)"
| "xmul NaN _ = NaN"
| "xmul _ NaN = NaN"
| "xmul (Fin a) PInf = (if a = 0 then NaN else xinf (0 < a))"
| "xmul (Fin a) NInf = (if a = 0 then NaN else xinf (a < 0))"
| "xmul PInf (Fin b) = (if b = 0 then NaN else xinf (0 < b))"
| "xmul NInf (Fin b) = (if b = 0 then NaN else xinf (b < 0))"
| "xmul PInf PInf = PInf"
| "xmul NInf NInf = PInf"
| "xmul PInf NInf = NInf"
| "xmul NInf PInf = NInf"

fun xdiv :: "xfloat \<Rightarrow> xfloat \<Rightarrow> xfloat" where
  "xdiv (Fin a) (Fin b) =
     (if b = 0 then (if a = 0 then NaN else xinf (0 < a)) else Fin (a / b))"
| "xdiv NaN _ = NaN"
| "xdiv _ NaN = NaN"
| "xdiv (Fin a) _ = Fin 0"
| "xdiv PInf (Fin b) = xinf (0 \<le> b)"
| "xdiv NInf (Fin b) = xinf (b < 0)"
| "xdiv _ _ = NaN"

fun xsqrt :: "xfloat \<Rightarrow> xfloat" where
  "xsqrt (Fin a) = (if a < 0 then NaN else Fin (sqrt a))"
| "xsqrt PInf = PInf"
| "xsqrt _ = NaN"

fun xcos :: "xfloat \<Rightarrow> xfloat" where
  "xcos (Fin a) = Fin (cos a)"
| "xcos _ = NaN"

fun xeq :: "xfloat \<Rightarrow> xfloat \<Rightarrow> bool" where
  "xeq (Fin a) (Fin b) \<longleftrightarrow> a = b"
| "xeq PInf PInf \<longleftrightarrow> True"
| "xeq NInf NInf \<longleftrightarrow> True"
| "xeq _ _ \<longleftrightarrow> False"

fun xlt :: "xfloat \<Rightarrow> xfloat \<Rightarrow> bool" where
  "xlt (Fin a) (Fin b) \<longleftrightarrow> a < b"
| "xlt NaN _ \<longleftrightarrow> False"
| "xlt _ NaN \<longleftrightarrow> False"
| "xlt _ NInf \<longleftrightarrow> False"
| "xlt PInf _ \<longleftrightarrow> False"
| "xlt _ _ \<longleftrightarrow> True"

fun xacos :: "xfloat \<Rightarrow> xfloat" where
  "xacos (Fin a) = (if a < -1 \<or> 1 < a then NaN else Fin (arccos a))"
| "xacos _ = NaN"

text \<open>
  The arithmetic alone; the four library functions are filled in below from it.
\<close>

definition exact_arith :: "xfloat FloatOps" where
  "exact_arith = \<lparr>
     fzero = Fin 0, fone = Fin 1,
     fadd = xadd, fsub = xsub, fmul = xmul, fdiv = xdiv, fneg = xneg,
     fsqrt = xsqrt, fcos = xcos, feq = xeq, flt = xlt,
     degToRad = (\<lambda>v. xmul v (Fin (pi / 180))),
     unitAngle = (\<lambda>u v. Fin 0),
     coordinateSystem = (\<lambda>a. (a, a)),
     surfaceArea = (\<lambda>t ps. Fin 0),
     normalizeDistr = (\<lambda>cdf. Fin 0) \<rparr>"

text \<open>
  Modelled from the spec: the functions of the core library that the mesh code calls
  and that are not among the sources. \<open>unitAngle\<close> is the angle between two unit
  vectors; \<open>coordinateSystem a\<close> completes \<open>a\<close> to a basis with two vectors
  perpendicular to it; \<open>Triangle::surfaceArea\<close> is half the length of the cross
  product of two edges; \<open>DiscreteDistribution::normalize\<close> returns the sum of the
  appended values.
\<close>

definition exact_coordinateSystem :: "xfloat Vector \<Rightarrow> xfloat Vector \<times> xfloat Vector" where
  "exact_coordinateSystem a =
     (let ax = (if xlt (vx a) (Fin 0) then xneg (vx a) else vx a);
          ay = (if xlt (vy a) (Fin 0) then xneg (vy a) else vy a);
          c = (if xlt ay ax
               then (let invLen = xdiv (Fin 1) (xsqrt (xadd (xmul (vx a) (vx a)) (xmul (vz a) (vz a))))
                     in Vector (xmul (vz a) invLen) (Fin 0) (xmul (xneg (vx a)) invLen))
               else (let invLen = xdiv (Fin 1) (xsqrt (xadd (xmul (vy a) (vy a)) (xmul (vz a) (vz a))))
                     in Vector (Fin 0) (xmul (vz a) invLen) (xmul (xneg (vy a)) invLen)))
      in (cross exact_arith c a, c))"

definition exact_surfaceArea :: "Triangle \<Rightarrow> xfloat Point list \<Rightarrow> xfloat" where
  "exact_surfaceArea t ps =
     xmul (Fin (1 / 2))
       (vlength exact_arith
          (cross exact_arith
             (vsub exact_arith (ps ! unat (idx1 t)) (ps ! unat (idx0 t)))
             (vsub exact_arith (ps ! unat (idx2 t)) (ps ! unat (idx0 t)))))"

definition exact_ops :: "xfloat FloatOps" where
  "exact_ops = exact_arith \<lparr>
     unitAngle := (\<lambda>u v. xacos (dot exact_arith u v)),
     coordinateSystem := exact_coordinateSystem,
     surfaceArea := exact_surfaceArea,
     normalizeDistr := (\<lambda>cdf. foldl xadd (Fin 0) cdf) \<rparr>"

text \<open>
  The mesh of the spec's scenario: one triangle with the positions \<open>(0,0,0)\<close>,
  \<open>(1,0,0)\<close>, \<open>(0,1,0)\<close>, no stored normals, freshly constructed (both cached areas
  hold the sentinel \<open>-1\<close>).
\<close>

definition unit_triangle :: "xfloat TriMesh" where
  "unit_triangle = \<lparr>
     m_name = ''triangle'', m_triangleCount = 1, m_vertexCount = 3,
     m_triangles = [Triangle 0 1 2],
     m_positions = [Vector (Fin 0) (Fin 0) (Fin 0), Vector (Fin 1) (Fin 0) (Fin 0),
                    Vector (Fin 0) (Fin 1) (Fin 0)],
     m_normals = None, m_texcoords = None, m_colors = None, m_tangents = None,
     m_surfaceArea = Fin (- 1), m_invSurfaceArea = Fin (- 1), m_areaDistr = [],
     m_flipNormals = False, m_faceNormals = False, m_bsdf = None \<rparr>"

text \<open>
  The same triangle with texture coordinates that are all \<open>(0,0)\<close> (the UV determinant
  is zero, the geometric normal is \<open>(0,0,1)\<close>), and a triangle whose three corners are
  vertex 0 (the geometric normal is zero).
\<close>

definition flat_uvs :: "xfloat Point2 list" where
  "flat_uvs = [Point2 (Fin 0) (Fin 0), Point2 (Fin 0) (Fin 0), Point2 (Fin 0) (Fin 0)]"

definition flat_uv_triangle :: "xfloat TriMesh" where
  "flat_uv_triangle = unit_triangle\<lparr>m_texcoords := Some flat_uvs\<rparr>"

definition collapsed_triangle :: "xfloat TriMesh" where
  "collapsed_triangle = unit_triangle\<lparr>
     m_triangles := [Triangle 0 0 0],
     m_texcoords := Some [Point2 (Fin 0) (Fin 0), Point2 (Fin 1) (Fin 0), Point2 (Fin 0) (Fin 1)]\<rparr>"

text \<open>
  A mesh that holds tangent frames but no texture coordinates, with an anisotropic
  material: the state of a mesh with tangent frames into which \<open>loadCompressed\<close> has
  read a segment without texture coordinates.
\<close>

definition anisotropic_bsdf :: BSDF where
  "anisotropic_bsdf = \<lparr>isAnisotropic = True, isGlossy = False, usesRayDifferentials = False\<rparr>"

definition stale_tangents :: "xfloat TriMesh" where
  "stale_tangents = unit_triangle\<lparr>
     m_tangents := Some [zero_tangent exact_ops], m_bsdf := Some anisotropic_bsdf\<rparr>"

text \<open>A mesh without triangles and without normals.\<close>

definition empty_mesh :: "xfloat TriMesh" where
  "empty_mesh = unit_triangle\<lparr>m_triangleCount := 0, m_triangles := []\<rparr>"

section \<open>A concrete platform for evaluating the codec\<close>

text \<open>
  Modelled from the spec: a single precision, little endian build. A string is
  written length-prefixed; compression stores the bytes as they are. Of the floats
  only \<open>0\<close>, \<open>1\<close>, \<open>-1\<close>, the infinities and NaN have their IEEE 754 bit patterns
  here, in both widths; every other value is outside this instance (it is written
  and read as NaN), and the evaluations in this theory use none.
\<close>

definition single_bits :: "xfloat \<Rightarrow> u32" where
  "single_bits v =
     (case v of
        Fin a \<Rightarrow> if a = 0 then 0 else if a = 1 then 0x3F800000
                 else if a = - 1 then 0xBF800000 else 0x7FC00000
      | PInf \<Rightarrow> 0x7F800000 | NInf \<Rightarrow> 0xFF800000 | NaN \<Rightarrow> 0x7FC00000)"

definition of_single_bits :: "u32 \<Rightarrow> xfloat" where
  "of_single_bits w =
     (if w = 0 then Fin 0 else if w = 0x3F800000 then Fin 1 else if w = 0xBF800000 then Fin (- 1)
      else if w = 0x7F800000 then PInf else if w = 0xFF800000 then NInf else NaN)"

definition of_double_bits :: "u64 \<Rightarrow> xfloat" where
  "of_double_bits w =
     (if w = 0 then Fin 0 else if w = 0x3FF0000000000000 then Fin 1
      else if w = 0xBFF0000000000000 then Fin (- 1)
      else if w = 0x7FF0000000000000 then PInf else if w = 0xFFF0000000000000 then NInf
      else NaN)"

definition byte_of_char :: "char \<Rightarrow> byte" where
  "byte_of_char c = of_nat (of_char c)"

definition char_of_byte :: "byte \<Rightarrow> char" where
  "char_of_byte b = char_of (unat b)"

definition prefixed_string :: "EByteOrder \<Rightarrow> string \<Rightarrow> byte list" where
  "prefixed_string order str =
     encode order 4 (of_nat (length str) :: u32) @ map byte_of_char str"

definition read_prefixed_string :: "EByteOrder \<Rightarrow> byte list \<Rightarrow> (string \<times> nat) option" where
  "read_prefixed_string order bs =
     (if length bs < 4 then None
      else
        let n = unat (decode order (take 4 bs) :: u32) in
        if 4 + n \<le> length bs then Some (map char_of_byte (take n (drop 4 bs)), 4 + n)
        else None)"

definition exact_io :: "xfloat StreamOps" where
  "exact_io = \<lparr>
     hostDoublePrecision = False,
     hostByteOrder = ELittleEndian,
     writeFloat = (\<lambda>order v. encode order 4 (single_bits v)),
     readFloat = (\<lambda>order bs. of_single_bits (decode order bs)),
     readDouble = (\<lambda>order bs. of_double_bits (decode order bs)),
     readSingle = (\<lambda>order bs. of_single_bits (decode order bs)),
     writeString_bytes = prefixed_string,
     readString_bytes = read_prefixed_string,
     deflate = (\<lambda>bs. bs),
     inflate = Some \<rparr>"

text \<open>
  A version 3 archive with one segment, an empty mesh: the header, the body (the
  flags \<open>ESinglePrecision\<close>, a vertex count and a triangle count of zero), and the
  trailer: the offset 0 of the segment and the segment count 1.
\<close>

definition v3_body :: "byte list" where
  "v3_body = [0x1C, 0x04, 0x03, 0x00,
              0x00, 0x10, 0x00, 0x00,
              0, 0, 0, 0, 0, 0, 0, 0,
              0, 0, 0, 0, 0, 0, 0, 0]"

definition v3_trailer :: "byte list" where
  "v3_trailer = [0x00, 0x00, 0x00, 0x00,
                 0x01, 0x00, 0x00, 0x00]"

definition stream_of :: "byte list \<Rightarrow> Stream" where
  "stream_of bs = \<lparr>s_data = bs, s_pos = 0, s_order = ELittleEndian, s_journal = []\<rparr>"

definition v3_archive :: Stream where
  "v3_archive = stream_of (v3_body @ v3_trailer)"

text \<open>
  The mesh that \<open>loadCompressed\<close> makes of \<open>empty_mesh\<close> when it reads a segment without
  vertices and triangles; the parameter is the flag \<open>EFaceNormals\<close> of the segment.
\<close>

definition loaded_empty :: "bool \<Rightarrow> xfloat TriMesh" where
  "loaded_empty faceNormals = empty_mesh\<lparr>
     m_vertexCount := 0, m_triangleCount := 0, m_faceNormals := faceNormals,
     m_positions := [], m_triangles := [],
     m_surfaceArea := Fin (- 1), m_invSurfaceArea := Fin (- 1), m_flipNormals := False\<rparr>"

text \<open>The header and the body of the archive after three bytes of another content.\<close>

definition v3_embedded :: Stream where
  "v3_embedded = \<lparr>s_data = [0xFF, 0xFF, 0xFF] @ v3_body, s_pos = 3,
                   s_order = ELittleEndian, s_journal = []\<rparr>"

section \<open>Meshes for evaluating the topology rebuild\<close>

text \<open>
  A two-sided triangle: the triangle of the spec's scenario once with each winding
  (the two face normals are \<open>(0,0,1)\<close> and \<open>(0,0,-1)\<close>); and a triangle whose corners
  \<open>(0,0,0)\<close>, \<open>(1,0,0)\<close>, \<open>(2,0,0)\<close> lie on a line, so that its area is zero.
\<close>

definition two_sided :: "xfloat TriMesh" where
  "two_sided = unit_triangle\<lparr>m_triangleCount := 2,
     m_triangles := [Triangle 0 1 2, Triangle 0 2 1]\<rparr>"

definition sliver :: "xfloat TriMesh" where
  "sliver = unit_triangle\<lparr>
     m_positions := [Vector (Fin 0) (Fin 0) (Fin 0), Vector (Fin 1) (Fin 0) (Fin 0),
                     Vector (Fin 2) (Fin 0) (Fin 0)]\<rparr>"

text \<open>
  Two triangles in the plane \<open>z = 0\<close> that do not share vertices: the corners 1 and 2 of
  the first lie at the positions of the corners 0 and 2 of the second. Both face
  normals are \<open>(0,0,1)\<close>.
\<close>

definition split_quad :: "xfloat TriMesh" where
  "split_quad = unit_triangle\<lparr>m_triangleCount := 2, m_vertexCount := 6,
     m_triangles := [Triangle 0 1 2, Triangle 3 4 5],
     m_positions := [Vector (Fin 0) (Fin 0) (Fin 0), Vector (Fin 1) (Fin 0) (Fin 0),
                     Vector (Fin 0) (Fin 1) (Fin 0), Vector (Fin 1) (Fin 0) (Fin 0),
                     Vector (Fin 1) (Fin 1) (Fin 0), Vector (Fin 0) (Fin 1) (Fin 0)]\<rparr>"

section \<open>Basic facts about the result type and the loops\<close>

lemma bindE_Inr_iff: "bindE r f = Inr y \<longleftrightarrow> (\<exists>v. r = Inr v \<and> f v = Inr y)"
  by (cases r) (simp_all add: bindE_def)

lemma bindE_Inl_iff: "bindE r f = Inl e \<longleftrightarrow> r = Inl e \<or> (\<exists>v. r = Inr v \<and> f v = Inl e)"
  by (cases r) (simp_all add: bindE_def)

lemma bindE_Inr [simp]: "bindE (Inr v) f = f v"
  by (simp add: bindE_def)

lemma bindE_Inl [simp]: "bindE (Inl e) f = Inl e"
  by (simp add: bindE_def)

lemma foldE_invariant:
  assumes "P s"
    and "\<And>x s. x \<in> set xs \<Longrightarrow> P s \<Longrightarrow> \<exists>s'. f x s = Inr s' \<and> P s'"
  shows "\<exists>s'. foldE f xs s = Inr s' \<and> P s'"
  using assms
proof (induction xs arbitrary: s)
  case Nil
  then show ?case by simp
next
  case (Cons x xs)
  from Cons.prems obtain s1 where s1: "f x s = Inr s1" "P s1"
    by (meson list.set_intros(1))
  have "\<exists>s'. foldE f xs s1 = Inr s' \<and> P s'"
    by (rule Cons.IH) (use s1 Cons.prems in auto)
  with s1 show ?case by simp
qed

lemma foldE_modify_total:
  "n \<le> length xs \<Longrightarrow>
     \<exists>ys. foldE (\<lambda>i ts. modify ts i g) [0..<n] xs = Inr ys \<and> length ys = length xs"
  by (rule foldE_invariant [where P = "\<lambda>ys. length ys = length xs"]) (auto simp: modify_def)

lemma idx_in_range: "tri_in_range n t \<Longrightarrow> unat (idx t i) < n"
  by (auto simp: idx_def tri_in_range_def)

lemma bindE_InlE:
  assumes "bindE r f = Inl e"
  obtains "r = Inl e" | v where "r = Inr v" "f v = Inl e"
  using assms by (cases r) auto

lemma bindE_foldE_Nil [simp]: "bindE r (foldE f []) = r"
  by (cases r) simp_all

lemma foldE_append: "foldE f (xs @ ys) s = bindE (foldE f xs s) (foldE f ys)"
  by (induction xs arbitrary: s) (auto simp: bindE_def split: sum.splits)

lemma foldE_Inl:
  "foldE f xs s = Inl e \<Longrightarrow> \<exists>x s'. x \<in> set xs \<and> f x s' = Inl e"
proof (induction xs arbitrary: s)
  case Nil
  then show ?case by simp
next
  case (Cons a xs)
  from Cons.prems consider "f a s = Inl e" | v where "f a s = Inr v" "foldE f xs v = Inl e"
    by (auto simp: bindE_Inl_iff)
  then show ?case
  proof cases
    case 1
    then show ?thesis by auto
  next
    case 2
    from Cons.IH [OF 2(2)] show ?thesis by auto
  qed
qed

lemma read_at_Inl: "read_at xs i = Inl e \<Longrightarrow> e = EOutOfBounds"
  by (auto simp: read_at_def split: if_splits)

lemma modify_Inl: "modify xs i f = Inl e \<Longrightarrow> e = EOutOfBounds"
  by (auto simp: modify_def split: if_splits)

lemma upt_small: "[0..<1] = [0]" "[0..<2] = [0, 1]" "[0..<3] = [0, 1, 2]"
  by (simp_all add: upt_rec)

lemmas exact_simps = exact_ops_def exact_arith_def exact_coordinateSystem_def
  exact_surfaceArea_def xsub_def xinf_def

lemmas vec_simps = vzero_def vadd_def vsub_def vscale_def vdiv_def cross_def dot_def
  vlength_def normalize_v_def veq_def sub2_def

section \<open>computeNormals\<close>

lemma corner_step_total:
  assumes "tri_in_range (length ps) tri" "length normals = length ps"
  shows "\<exists>brk n' ns. corner_step ops ps tri i (n, normals) = Inr (brk, n', ns)
           \<and> length ns = length ps"
  using assms idx_in_range [OF assms(1)]
  by (auto simp: corner_step_def read_at_def modify_def Let_def)

lemma corner_loop_total:
  assumes "tri_in_range (length ps) tri" "length normals = length ps"
  shows "\<exists>ns. corner_loop ops ps tri is (n, normals) = Inr ns \<and> length ns = length ps"
  using assms(2)
proof (induction "is" arbitrary: n normals)
  case Nil
  then show ?case by simp
next
  case (Cons i "is")
  obtain brk n' ns where st:
    "corner_step ops ps tri i (n, normals) = Inr (brk, n', ns)" "length ns = length ps"
    using corner_step_total [OF assms(1) Cons.prems] by blast
  show ?case
    using st Cons.IH [OF st(2), of n'] by auto
qed

lemma accumulate_total:
  assumes "wf_mesh m" "i < m_triangleCount m" "length normals = m_vertexCount m"
  shows "\<exists>ns. accumulate ops m i normals = Inr ns \<and> length ns = m_vertexCount m"
proof -
  have len: "length (m_triangles m) = m_triangleCount m"
    "length (m_positions m) = m_vertexCount m"
    and all: "list_all (tri_in_range (m_vertexCount m)) (m_triangles m)"
    using assms(1) by (simp_all add: wf_mesh_def)
  have "tri_in_range (length (m_positions m)) (m_triangles m ! i)"
    using all assms(2) len by (simp add: list_all_length)
  from corner_loop_total [OF this, of normals ops "[0, 1, 2]" "vzero ops"] assms(3) len
  show ?thesis
    by (simp add: accumulate_def read_at_def assms(2))
qed

lemma computeNormals_total:
  assumes "wf_mesh m"
  shows "\<exists>m' w. computeNormals ops m = Inr (m', w)"
proof -
  have len: "length (m_triangles m) = m_triangleCount m"
    "length (m_positions m) = m_vertexCount m"
    using assms by (simp_all add: wf_mesh_def)
  have swap: "\<exists>ts. foldE (\<lambda>i ts. modify ts i swap01) [0..<m_triangleCount m] (m_triangles m) = Inr ts"
    using foldE_modify_total [of "m_triangleCount m" "m_triangles m" swap01] len by auto
  have neg: "\<exists>ns. foldE (\<lambda>i ns. modify ns i g) [0..<m_vertexCount m] normals = Inr ns"
    if "m_normals m = Some normals" for normals and g :: "'a Vector \<Rightarrow> 'a Vector"
  proof -
    have "length normals = m_vertexCount m"
      using assms that by (simp add: wf_mesh_def has_len_def)
    then show ?thesis
      using foldE_modify_total [of "m_vertexCount m" normals g] by auto
  qed
  have acc: "\<exists>ns. foldE (accumulate ops m) [0..<m_triangleCount m]
                 (replicate (m_vertexCount m) (vzero ops)) = Inr ns
      \<and> length ns = m_vertexCount m"
    by (rule foldE_invariant [where P = "\<lambda>ns. length ns = m_vertexCount m"])
      (use accumulate_total [OF assms] in auto)
  have fin: "\<exists>r. foldE (finish_normal ops flip) [0..<m_vertexCount m] (ns, 0) = Inr r"
    if "length ns = m_vertexCount m" for ns flip
  proof -
    have "\<exists>s'. foldE (finish_normal ops flip) [0..<m_vertexCount m] (ns, 0) = Inr s'
            \<and> length (fst s') = m_vertexCount m"
      by (rule foldE_invariant [where P = "\<lambda>s. length (fst s) = m_vertexCount m"])
        (use that in \<open>auto simp: finish_normal_def read_at_def Let_def\<close>)
    then show ?thesis by blast
  qed
  show ?thesis
  proof (cases "m_faceNormals m")
    case True
    then show ?thesis using swap by (auto simp: computeNormals_def Let_def)
  next
    case False
    show ?thesis
    proof (cases "m_normals m")
      case None
      from acc obtain ns where ns:
        "foldE (accumulate ops m) [0..<m_triangleCount m]
           (replicate (m_vertexCount m) (vzero ops)) = Inr ns"
        "length ns = m_vertexCount m" by blast
      from fin [OF ns(2)] obtain r where
        "foldE (finish_normal ops (m_flipNormals m)) [0..<m_vertexCount m] (ns, 0) = Inr r"
        by blast
      then show ?thesis using False None ns
        by (cases r) (simp add: computeNormals_def)
    next
      case (Some normals)
      from neg [OF Some] obtain ns where
        "foldE (\<lambda>i ns. modify ns i (\<lambda>n. vscale ops n (fneg ops (fone ops))))
           [0..<m_vertexCount m] normals = Inr ns"
        by blast
      then show ?thesis using False Some
        by (simp add: computeNormals_def)
    qed
  qed
qed

lemma computeNormals_flag:
  "computeNormals ops m = Inr (m', w) \<Longrightarrow> \<not> m_flipNormals m'"
  by (auto simp: computeNormals_def bindE_Inr_iff split: prod.splits)

lemma wf_unit_triangle: "wf_mesh unit_triangle"
  by (simp add: wf_mesh_def unit_triangle_def has_len_def tri_in_range_def)

text \<open>
  C6. Whatever the mesh and whichever branch runs, a call of \<open>computeNormals\<close> that
  returns leaves \<open>m_flipNormals\<close> false; and on every mesh that satisfies the
  invariants of the data model the call does return. (The only way not to return is
  an array access out of bounds, which the invariants exclude.)
\<close>

theorem computeNormals_clears_flipNormals:
  "(\<forall>m' w. computeNormals ops m = Inr (m', w) \<longrightarrow> \<not> m_flipNormals m') \<and>
   (wf_mesh m \<longrightarrow> (\<exists>m' w. computeNormals ops m = Inr (m', w) \<and> \<not> m_flipNormals m'))"
  using computeNormals_total [of m ops] computeNormals_flag [of ops m] by blast

theorem computeNormals_clears_flipNormals_witness:
  "wf_mesh (unit_triangle\<lparr>m_flipNormals := True\<rparr>) \<and>
   (\<exists>m' w. computeNormals exact_ops (unit_triangle\<lparr>m_flipNormals := True\<rparr>) = Inr (m', w)
      \<and> \<not> m_flipNormals m')"
proof -
  have wf: "wf_mesh (unit_triangle\<lparr>m_flipNormals := True\<rparr>)"
    using wf_unit_triangle by (simp add: wf_mesh_def)
  with computeNormals_clears_flipNormals [of exact_ops "unit_triangle\<lparr>m_flipNormals := True\<rparr>"]
  show ?thesis by blast
qed

section \<open>computeUVTangents\<close>

lemma tangent_step_Inl: "tangent_step ops m uvs i st = Inl e \<Longrightarrow> e = EOutOfBounds"
  unfolding tangent_step_def Let_def
  by (auto elim!: bindE_InlE dest: read_at_Inl modify_Inl split: prod.splits if_splits)

lemma tangent_step_wf:
  assumes "wf_mesh m" "m_texcoords m = Some uvs" "i < m_triangleCount m"
    "length ts = m_triangleCount m"
  shows "tangent_step ops m uvs i (ts, d) =
     Inr (if zero_normal ops m i then (ts, d + 1) else (ts[i := stored_frame ops m uvs i], d))"
proof -
  have len: "length (m_triangles m) = m_triangleCount m"
    "length (m_positions m) = m_vertexCount m" "length uvs = m_vertexCount m"
    and all: "list_all (tri_in_range (m_vertexCount m)) (m_triangles m)"
    using assms(1,2) by (simp_all add: wf_mesh_def has_len_def)
  have "tri_in_range (m_vertexCount m) (m_triangles m ! i)"
    using all assms(3) len by (simp add: list_all_length)
  then have r: "unat (idx0 (m_triangles m ! i)) < m_vertexCount m"
    "unat (idx1 (m_triangles m ! i)) < m_vertexCount m"
    "unat (idx2 (m_triangles m ! i)) < m_vertexCount m"
    by (simp_all add: tri_in_range_def)
  show ?thesis
    using r len assms(3,4)
    by (simp add: tangent_step_def read_at_def modify_def Let_def zero_normal_def
        geo_normal_def stored_frame_def uv_determinant_def fallback_frame_def solved_frame_def)
qed

lemma tangent_loop:
  assumes "wf_mesh m" "m_texcoords m = Some uvs" "k \<le> m_triangleCount m"
  shows "foldE (tangent_step ops m uvs) [0..<k]
           (replicate (m_triangleCount m) (zero_tangent ops), 0) =
     Inr (map (stored_frame ops m uvs) [0..<k]
            @ replicate (m_triangleCount m - k) (zero_tangent ops),
          int (length (filter (zero_normal ops m) [0..<k])))"
  using assms(3)
proof (induction k)
  case 0
  then show ?case by simp
next
  case (Suc k)
  let ?n = "m_triangleCount m"
  let ?ts = "map (stored_frame ops m uvs) [0..<k] @ replicate (?n - k) (zero_tangent ops)"
  let ?r = "map (stored_frame ops m uvs) [0..<k] @ stored_frame ops m uvs k
              # replicate (?n - Suc k) (zero_tangent ops)"
  let ?c = "int (length (filter (zero_normal ops m) [0..<k]))"
  have k: "k < ?n" using Suc.prems by simp
  have lts: "length ?ts = ?n" using k by simp
  have upd: "(map (stored_frame ops m uvs) [0..<k] @ z # r)[k := x]
      = map (stored_frame ops m uvs) [0..<k] @ x # r" for x z r
    by (simp add: list_update_append)
  have rep: "replicate (?n - k) (zero_tangent ops)
      = zero_tangent ops # replicate (?n - Suc k) (zero_tangent ops)"
    using k by (metis Suc_diff_Suc replicate_Suc)
  have z: "zero_normal ops m k \<Longrightarrow> stored_frame ops m uvs k = zero_tangent ops"
    by (simp add: stored_frame_def)
  have ih: "foldE (tangent_step ops m uvs) [0..<k] (replicate ?n (zero_tangent ops), 0) =
      Inr (?ts, ?c)"
    using Suc.IH k by simp
  have step: "tangent_step ops m uvs k (?ts, d) =
      Inr (if zero_normal ops m k then (?ts, d + 1)
           else (?ts[k := stored_frame ops m uvs k], d))" for d
    by (rule tangent_step_wf [OF assms(1,2) k lts])
  have tsz: "zero_normal ops m k \<Longrightarrow> ?ts = ?r"
    using rep z by simp
  have tsn: "?ts[k := stored_frame ops m uvs k] = ?r"
    using rep upd by simp
  have "foldE (tangent_step ops m uvs) [0..<Suc k] (replicate ?n (zero_tangent ops), 0) =
      tangent_step ops m uvs k (?ts, ?c)"
    unfolding upt_Suc_append [OF le0] foldE_append ih by simp
  also have "\<dots> = Inr (if zero_normal ops m k then (?ts, ?c + 1)
                         else (?ts[k := stored_frame ops m uvs k], ?c))"
    by (rule step)
  also have "\<dots> = Inr (?r, int (length (filter (zero_normal ops m) [0..<Suc k])))"
  proof (cases "zero_normal ops m k")
    case True
    with tsz show ?thesis by simp
  next
    case False
    with tsn show ?thesis by simp
  qed
  finally show ?case by simp
qed

lemma computeUVTangents_Inl:
  "computeUVTangents ops m = Inl e \<Longrightarrow>
     e = EOutOfBounds \<or> (e = ETexcoordsRequired \<and> m_texcoords m = None \<and> hasAnisotropicBSDF m)"
  by (auto simp: computeUVTangents_def split: option.splits if_splits prod.splits
      elim!: bindE_InlE dest!: foldE_Inl tangent_step_Inl)

lemma wf_flat_uv_triangle: "wf_mesh flat_uv_triangle"
  by (simp add: wf_mesh_def flat_uv_triangle_def flat_uvs_def unit_triangle_def has_len_def
      tri_in_range_def)

lemma flat_uv_triangle_fields:
  "m_texcoords flat_uv_triangle = Some flat_uvs" "m_tangents flat_uv_triangle = None"
  by (simp_all add: flat_uv_triangle_def unit_triangle_def)

text \<open>
  C2, as the spec states it, fails in both halves. \<open>flat_uv_triangle\<close> has a zero UV
  determinant and the normal \<open>(0,0,1)\<close>: it gets the frame of \<open>coordinateSystem\<close>, but
  it is not counted and no warning is logged. \<open>collapsed_triangle\<close> has a normal of
  length zero: it is counted, and its frame is the pair of zero vectors that \<open>memset\<close>
  wrote, not a basis.
\<close>

theorem computeUVTangents_fallback_counterexample:
  "uv_determinant exact_ops flat_uv_triangle flat_uvs 0 = Fin 0 \<and>
   computeUVTangents exact_ops flat_uv_triangle =
     Inr (flat_uv_triangle\<lparr>m_tangents :=
            Some [\<lparr>dpdu = Vector (Fin 1) (Fin 0) (Fin 0), dpdv = Vector (Fin 0) (Fin 1) (Fin 0)\<rparr>]\<rparr>,
          []) \<and>
   vlength exact_ops (geo_normal exact_ops collapsed_triangle 0) = Fin 0 \<and>
   computeUVTangents exact_ops collapsed_triangle =
     Inr (collapsed_triangle\<lparr>m_tangents :=
            Some [\<lparr>dpdu = Vector (Fin 0) (Fin 0) (Fin 0), dpdv = Vector (Fin 0) (Fin 0) (Fin 0)\<rparr>]\<rparr>,
          [WDegenerate 1])"
proof -
  have "uv_determinant exact_ops flat_uv_triangle flat_uvs 0 = Fin 0"
    by (simp add: uv_determinant_def flat_uv_triangle_def flat_uvs_def unit_triangle_def
        exact_simps vec_simps)
  moreover have "computeUVTangents exact_ops flat_uv_triangle =
     Inr (flat_uv_triangle\<lparr>m_tangents :=
            Some [\<lparr>dpdu = Vector (Fin 1) (Fin 0) (Fin 0), dpdv = Vector (Fin 0) (Fin 1) (Fin 0)\<rparr>]\<rparr>,
          [])"
    by (simp add: computeUVTangents_def flat_uv_triangle_def flat_uvs_def unit_triangle_def
        tangent_step_def read_at_def modify_def zero_tangent_def exact_simps vec_simps Let_def)
  moreover have "vlength exact_ops (geo_normal exact_ops collapsed_triangle 0) = Fin 0"
    by (simp add: geo_normal_def collapsed_triangle_def unit_triangle_def exact_simps vec_simps)
  moreover have "computeUVTangents exact_ops collapsed_triangle =
     Inr (collapsed_triangle\<lparr>m_tangents :=
            Some [\<lparr>dpdu = Vector (Fin 0) (Fin 0) (Fin 0), dpdv = Vector (Fin 0) (Fin 0) (Fin 0)\<rparr>]\<rparr>,
          [WDegenerate 1])"
    by (simp add: computeUVTangents_def collapsed_triangle_def unit_triangle_def
        tangent_step_def read_at_def modify_def zero_tangent_def exact_simps vec_simps Let_def)
  ultimately show ?thesis by blast
qed

text \<open>
  C2, amended. On a mesh with texture coordinates and without tangent frames (and
  within the invariants of the data model), \<open>computeUVTangents\<close> stores for triangle
  \<open>i\<close> the frame \<open>stored_frame\<close>: the zero pair when the geometric normal has length
  zero; the pair \<open>coordinateSystem (n / length)\<close> when the length is not zero and the UV
  determinant is zero; the solution of the 2x2 system otherwise. The tally counts
  the triangles whose normal has length zero, and only those; it is logged when it is
  positive.
\<close>

theorem computeUVTangents_frames:
  assumes "wf_mesh m" "m_texcoords m = Some uvs" "m_tangents m = None"
  shows "computeUVTangents ops m =
     Inr (m\<lparr>m_tangents := Some (map (stored_frame ops m uvs) [0..<m_triangleCount m])\<rparr>,
          if degenerate_tally ops m > 0 then [WDegenerate (degenerate_tally ops m)] else [])"
  using assms tangent_loop [OF assms(1,2) le_refl, of ops]
  by (simp add: computeUVTangents_def degenerate_tally_def)

theorem computeUVTangents_frames_witness:
  "wf_mesh flat_uv_triangle \<and> m_texcoords flat_uv_triangle = Some flat_uvs \<and>
   m_tangents flat_uv_triangle = None \<and>
   computeUVTangents exact_ops flat_uv_triangle =
     Inr (flat_uv_triangle\<lparr>m_tangents :=
            Some (map (stored_frame exact_ops flat_uv_triangle flat_uvs)
                    [0..<m_triangleCount flat_uv_triangle])\<rparr>,
          if degenerate_tally exact_ops flat_uv_triangle > 0
          then [WDegenerate (degenerate_tally exact_ops flat_uv_triangle)] else [])"
  using computeUVTangents_frames [OF wf_flat_uv_triangle flat_uv_triangle_fields, of exact_ops]
    wf_flat_uv_triangle flat_uv_triangle_fields by simp

text \<open>
  C7, as the spec states it, fails in one state: a mesh that has tangent frames, no
  texture coordinates and an anisotropic material. The test for texture coordinates
  comes first, so the call is a fatal error there and not a no-op.
\<close>

theorem computeUVTangents_noop_counterexample:
  "m_tangents stale_tangents \<noteq> None \<and>
   computeUVTangents exact_ops stale_tangents = Inl ETexcoordsRequired"
  by (simp add: computeUVTangents_def stale_tangents_def unit_triangle_def
      hasAnisotropicBSDF_def anisotropic_bsdf_def)

text \<open>
  C7, amended. \<open>computeUVTangents\<close> raises its fatal error if and only if the mesh has
  no texture coordinates and the material is anisotropic (and within the invariants
  of the data model it fails in no other way); without texture coordinates and
  without an anisotropic material it returns the mesh unchanged, creating no tangent
  frames; with texture coordinates and with tangent frames it returns the mesh
  unchanged; and a second call after a call that returned changes nothing.
\<close>

theorem computeUVTangents_contract:
  "(computeUVTangents ops m = Inl ETexcoordsRequired
      \<longleftrightarrow> m_texcoords m = None \<and> hasAnisotropicBSDF m) \<and>
   (wf_mesh m \<longrightarrow>
      ((\<exists>e. computeUVTangents ops m = Inl e) \<longleftrightarrow> m_texcoords m = None \<and> hasAnisotropicBSDF m)) \<and>
   (m_texcoords m = None \<and> \<not> hasAnisotropicBSDF m \<longrightarrow> computeUVTangents ops m = Inr (m, [])) \<and>
   (m_texcoords m \<noteq> None \<and> m_tangents m \<noteq> None \<longrightarrow> computeUVTangents ops m = Inr (m, [])) \<and>
   (\<forall>m' w. computeUVTangents ops m = Inr (m', w) \<longrightarrow> computeUVTangents ops m' = Inr (m', []))"
proof -
  have err: "computeUVTangents ops m = Inl ETexcoordsRequired
      \<longleftrightarrow> m_texcoords m = None \<and> hasAnisotropicBSDF m"
  proof
    assume "computeUVTangents ops m = Inl ETexcoordsRequired"
    from computeUVTangents_Inl [OF this] show "m_texcoords m = None \<and> hasAnisotropicBSDF m"
      by simp
  next
    assume "m_texcoords m = None \<and> hasAnisotropicBSDF m"
    then show "computeUVTangents ops m = Inl ETexcoordsRequired"
      by (simp add: computeUVTangents_def)
  qed
  have total: "(\<exists>e. computeUVTangents ops m = Inl e) \<longleftrightarrow> m_texcoords m = None \<and> hasAnisotropicBSDF m"
    if wf: "wf_mesh m"
  proof (cases "m_texcoords m")
    case None
    then show ?thesis by (auto simp: computeUVTangents_def)
  next
    case (Some uvs)
    show ?thesis
    proof (cases "m_tangents m")
      case None
      from computeUVTangents_frames [OF wf Some None, of ops] Some show ?thesis by simp
    next
      case (Some ts)
      with \<open>m_texcoords m = Some uvs\<close> show ?thesis by (simp add: computeUVTangents_def)
    qed
  qed
  have absent: "computeUVTangents ops m = Inr (m, [])"
    if "m_texcoords m = None \<and> \<not> hasAnisotropicBSDF m"
    using that by (simp add: computeUVTangents_def)
  have present: "computeUVTangents ops m = Inr (m, [])"
    if "m_texcoords m \<noteq> None \<and> m_tangents m \<noteq> None"
    using that by (auto simp: computeUVTangents_def split: option.splits)
  have again: "computeUVTangents ops m' = Inr (m', [])"
    if "computeUVTangents ops m = Inr (m', w)" for m' w
    using that
    by (auto simp: computeUVTangents_def hasAnisotropicBSDF_def bindE_Inr_iff
        split: option.splits if_splits prod.splits)
  from err total absent present again show ?thesis by blast
qed

theorem computeUVTangents_contract_witness:
  "wf_mesh flat_uv_triangle \<and>
   \<not> (\<exists>e. computeUVTangents exact_ops flat_uv_triangle = Inl e) \<and>
   m_texcoords unit_triangle = None \<and> \<not> hasAnisotropicBSDF unit_triangle \<and>
   computeUVTangents exact_ops unit_triangle = Inr (unit_triangle, []) \<and>
   (\<exists>m' w. computeUVTangents exact_ops flat_uv_triangle = Inr (m', w) \<and>
      m_texcoords m' \<noteq> None \<and> m_tangents m' \<noteq> None \<and>
      computeUVTangents exact_ops m' = Inr (m', []))"
proof -
  have a: "m_texcoords unit_triangle = None \<and> \<not> hasAnisotropicBSDF unit_triangle"
    by (simp add: unit_triangle_def hasAnisotropicBSDF_def)
  have b: "\<not> (\<exists>e. computeUVTangents exact_ops flat_uv_triangle = Inl e)"
    using computeUVTangents_contract [of exact_ops flat_uv_triangle] wf_flat_uv_triangle
      flat_uv_triangle_fields by simp
  obtain m' w where c: "computeUVTangents exact_ops flat_uv_triangle = Inr (m', w)"
    using b by (cases "computeUVTangents exact_ops flat_uv_triangle") auto
  have d: "m_texcoords m' \<noteq> None \<and> m_tangents m' \<noteq> None"
    using c computeUVTangents_frames [OF wf_flat_uv_triangle flat_uv_triangle_fields, of exact_ops]
      flat_uv_triangle_fields by auto
  from a b c d computeUVTangents_contract [of exact_ops unit_triangle]
    computeUVTangents_contract [of exact_ops flat_uv_triangle] wf_flat_uv_triangle
  show ?thesis by blast
qed

section \<open>The area distribution\<close>

lemma append_areas:
  assumes "k \<le> length ts"
  shows "foldE (\<lambda>i distr. bindE (read_at ts i) (\<lambda>tri. Inr (distr @ [area tri]))) [0..<k] d
     = Inr (d @ map area (take k ts))"
  using assms
proof (induction k)
  case 0
  then show ?case by simp
next
  case (Suc k)
  then have k: "k < length ts" by simp
  have "take (Suc k) ts = take k ts @ [ts ! k]"
    using k by (simp add: take_Suc_conv_app_nth)
  with Suc.IH k show ?case
    by (simp add: foldE_append read_at_def)
qed

lemma prepareSamplingTable_build:
  assumes "0 < m_triangleCount m" "flt ops (m_surfaceArea m) (fzero ops)"
    "length (m_triangles m) = m_triangleCount m"
  shows "prepareSamplingTable ops m =
     Inr (m\<lparr>m_areaDistr := m_areaDistr m @ map (\<lambda>t. surfaceArea ops t (m_positions m)) (m_triangles m),
           m_surfaceArea := normalizeDistr ops
              (m_areaDistr m @ map (\<lambda>t. surfaceArea ops t (m_positions m)) (m_triangles m)),
           m_invSurfaceArea := fdiv ops (fone ops) (normalizeDistr ops
              (m_areaDistr m @ map (\<lambda>t. surfaceArea ops t (m_positions m)) (m_triangles m)))\<rparr>)"
  using assms
    append_areas [of "m_triangleCount m" "m_triangles m"
      "\<lambda>t. surfaceArea ops t (m_positions m)" "m_areaDistr m"]
  by (simp add: prepareSamplingTable_def Let_def)

text \<open>
  C8. On a mesh without triangles the build is the fatal error \<open>EEmptyMesh\<close>, and so is
  each of the two calls that trigger it while the surface area holds its sentinel. On
  a mesh with triangles the build does nothing unless the surface area is negative;
  when it is, the surface area becomes the total that the distribution's \<open>normalize\<close>
  returns for the areas of the triangles, and the inverse surface area is
  \<open>1.0f / m_surfaceArea\<close>; a second build then does nothing. That total is the result
  of a library function which is not among the sources: where it is not negative, the
  stored surface area is not negative.
\<close>

theorem prepareSamplingTable_lazy_build:
  "(m_triangleCount m = 0 \<longrightarrow>
      prepareSamplingTable ops m = Inl EEmptyMesh \<and>
      (flt ops (m_surfaceArea m) (fzero ops) \<longrightarrow>
         getSurfaceArea ops m = Inl EEmptyMesh \<and> samplePosition ops m = Inl EEmptyMesh)) \<and>
   (0 < m_triangleCount m \<and> \<not> flt ops (m_surfaceArea m) (fzero ops) \<longrightarrow>
      prepareSamplingTable ops m = Inr m \<and>
      getSurfaceArea ops m = Inr (m_surfaceArea m, m) \<and>
      samplePosition ops m = Inr (m_invSurfaceArea m, m)) \<and>
   (0 < m_triangleCount m \<and> flt ops (m_surfaceArea m) (fzero ops) \<and>
    length (m_triangles m) = m_triangleCount m \<longrightarrow>
      (\<exists>m'. prepareSamplingTable ops m = Inr m' \<and>
         getSurfaceArea ops m = Inr (m_surfaceArea m', m') \<and>
         samplePosition ops m = Inr (m_invSurfaceArea m', m') \<and>
         m_surfaceArea m' = normalizeDistr ops
            (m_areaDistr m @ map (\<lambda>t. surfaceArea ops t (m_positions m)) (m_triangles m)) \<and>
         m_invSurfaceArea m' = fdiv ops (fone ops) (m_surfaceArea m') \<and>
         (\<not> flt ops (normalizeDistr ops
            (m_areaDistr m @ map (\<lambda>t. surfaceArea ops t (m_positions m)) (m_triangles m)))
            (fzero ops) \<longrightarrow>
          \<not> flt ops (m_surfaceArea m') (fzero ops) \<and> prepareSamplingTable ops m' = Inr m')))"
proof (intro conjI impI)
  assume "m_triangleCount m = 0"
  then show e: "prepareSamplingTable ops m = Inl EEmptyMesh"
    by (simp add: prepareSamplingTable_def)
  assume "flt ops (m_surfaceArea m) (fzero ops)"
  with e show "getSurfaceArea ops m = Inl EEmptyMesh" "samplePosition ops m = Inl EEmptyMesh"
    by (simp_all add: getSurfaceArea_def samplePosition_def)
next
  assume a: "0 < m_triangleCount m \<and> \<not> flt ops (m_surfaceArea m) (fzero ops)"
  then show "prepareSamplingTable ops m = Inr m"
    by (simp add: prepareSamplingTable_def)
  from a show "getSurfaceArea ops m = Inr (m_surfaceArea m, m)"
    by (simp add: getSurfaceArea_def)
  from a show "samplePosition ops m = Inr (m_invSurfaceArea m, m)"
    by (simp add: samplePosition_def)
next
  assume a: "0 < m_triangleCount m \<and> flt ops (m_surfaceArea m) (fzero ops) \<and>
    length (m_triangles m) = m_triangleCount m"
  let ?d = "m_areaDistr m @ map (\<lambda>t. surfaceArea ops t (m_positions m)) (m_triangles m)"
  let ?m' = "m\<lparr>m_areaDistr := ?d, m_surfaceArea := normalizeDistr ops ?d,
                m_invSurfaceArea := fdiv ops (fone ops) (normalizeDistr ops ?d)\<rparr>"
  have b: "prepareSamplingTable ops m = Inr ?m'"
    using a prepareSamplingTable_build [of m ops] by simp
  have c: "prepareSamplingTable ops ?m' = Inr ?m'"
    if "\<not> flt ops (normalizeDistr ops ?d) (fzero ops)"
    using a that by (simp add: prepareSamplingTable_def)
  show "\<exists>m'. prepareSamplingTable ops m = Inr m' \<and>
         getSurfaceArea ops m = Inr (m_surfaceArea m', m') \<and>
         samplePosition ops m = Inr (m_invSurfaceArea m', m') \<and>
         m_surfaceArea m' = normalizeDistr ops ?d \<and>
         m_invSurfaceArea m' = fdiv ops (fone ops) (m_surfaceArea m') \<and>
         (\<not> flt ops (normalizeDistr ops ?d) (fzero ops) \<longrightarrow>
          \<not> flt ops (m_surfaceArea m') (fzero ops) \<and> prepareSamplingTable ops m' = Inr m')"
    using a b c
    by (intro exI [of _ ?m']) (simp add: getSurfaceArea_def samplePosition_def)
qed

text \<open>
  The witness runs the build on a mesh without triangles and on the triangle of the
  spec's scenario: its area is \<open>1/2\<close>, the reciprocal \<open>2\<close>.
\<close>

theorem prepareSamplingTable_lazy_build_witness:
  "prepareSamplingTable exact_ops empty_mesh = Inl EEmptyMesh \<and>
   getSurfaceArea exact_ops empty_mesh = Inl EEmptyMesh \<and>
   samplePosition exact_ops empty_mesh = Inl EEmptyMesh \<and>
   prepareSamplingTable exact_ops unit_triangle =
     Inr (unit_triangle\<lparr>m_areaDistr := [Fin (1 / 2)], m_surfaceArea := Fin (1 / 2),
                        m_invSurfaceArea := Fin 2\<rparr>) \<and>
   prepareSamplingTable exact_ops
       (unit_triangle\<lparr>m_areaDistr := [Fin (1 / 2)], m_surfaceArea := Fin (1 / 2),
                        m_invSurfaceArea := Fin 2\<rparr>) =
     Inr (unit_triangle\<lparr>m_areaDistr := [Fin (1 / 2)], m_surfaceArea := Fin (1 / 2),
                        m_invSurfaceArea := Fin 2\<rparr>)"
proof -
  have e: "m_triangleCount empty_mesh = 0"
    "flt exact_ops (m_surfaceArea empty_mesh) (fzero exact_ops)"
    by (simp_all add: empty_mesh_def unit_triangle_def exact_simps)
  have u: "0 < m_triangleCount unit_triangle"
    "flt exact_ops (m_surfaceArea unit_triangle) (fzero exact_ops)"
    "length (m_triangles unit_triangle) = m_triangleCount unit_triangle"
    by (simp_all add: unit_triangle_def exact_simps)
  have v: "prepareSamplingTable exact_ops unit_triangle =
     Inr (unit_triangle\<lparr>m_areaDistr := [Fin (1 / 2)], m_surfaceArea := Fin (1 / 2),
                        m_invSurfaceArea := Fin 2\<rparr>)"
    by (simp add: prepareSamplingTable_def unit_triangle_def read_at_def
        exact_simps vec_simps Let_def)
  have n: "\<not> flt exact_ops (normalizeDistr exact_ops
      (m_areaDistr unit_triangle
        @ map (\<lambda>t. surfaceArea exact_ops t (m_positions unit_triangle)) (m_triangles unit_triangle)))
      (fzero exact_ops)"
    by (simp add: unit_triangle_def exact_simps vec_simps)
  from prepareSamplingTable_lazy_build [of empty_mesh exact_ops] e
    prepareSamplingTable_lazy_build [of unit_triangle exact_ops] u v n
  show ?thesis by auto
qed

section \<open>getNormalDerivative\<close>

text \<open>
  C9. When \<open>shadingFrame\<close> is false or the mesh stores no vertex normals, both
  derivatives are the zero vector, for every intersection record and every mesh:
  also for a mesh without triangles or with indices out of range, where any read of
  a triangle, a position or a normal would fail.
\<close>

theorem getNormalDerivative_zero:
  "\<not> shadingFrame \<or> m_normals m = None \<Longrightarrow>
     getNormalDerivative ops m its shadingFrame = Inr (vzero ops, vzero ops)"
  by (simp add: getNormalDerivative_def)

theorem getNormalDerivative_zero_witness:
  "m_normals empty_mesh = None \<and> \<not> primIndex \<lparr>primIndex = 7, its_p = vzero exact_ops\<rparr> < m_triangleCount empty_mesh \<and>
   getNormalDerivative exact_ops empty_mesh \<lparr>primIndex = 7, its_p = vzero exact_ops\<rparr> True
     = Inr (vzero exact_ops, vzero exact_ops) \<and>
   getNormalDerivative exact_ops (empty_mesh\<lparr>m_normals := Some []\<rparr>)
       \<lparr>primIndex = 7, its_p = vzero exact_ops\<rparr> False
     = Inr (vzero exact_ops, vzero exact_ops) \<and>
   getNormalDerivative exact_ops (empty_mesh\<lparr>m_normals := Some []\<rparr>)
       \<lparr>primIndex = 7, its_p = vzero exact_ops\<rparr> True
     = Inl EAssertionFailed"
proof -
  have n: "m_normals empty_mesh = None" "m_triangleCount empty_mesh = 0"
    by (simp_all add: empty_mesh_def unit_triangle_def)
  have "getNormalDerivative exact_ops (empty_mesh\<lparr>m_normals := Some []\<rparr>)
       \<lparr>primIndex = 7, its_p = vzero exact_ops\<rparr> True = Inl EAssertionFailed"
    by (simp add: getNormalDerivative_def n)
  with n getNormalDerivative_zero [of True empty_mesh exact_ops "\<lparr>primIndex = 7, its_p = vzero exact_ops\<rparr>"]
    getNormalDerivative_zero [of False "empty_mesh\<lparr>m_normals := Some []\<rparr>" exact_ops
      "\<lparr>primIndex = 7, its_p = vzero exact_ops\<rparr>"]
  show ?thesis by simp
qed

section \<open>loadCompressed\<close>

lemmas stream_simps = read_word_def readShort_def readUInt_def readSize_def read_bytes_def
  seek_def skip_def getSize_def decode_def read_array_def readUIntArray_def
  readFloatArray_def readDoubleArray_def readSingleArray_def readString_def
  zstream_reader_def readHelper_def readOptional_def floatWidth_def

lemmas format_simps = MTS_FILEFORMAT_HEADER_def MTS_FILEFORMAT_VERSION_V3_def
  MTS_FILEFORMAT_VERSION_V4_def EHasNormals_def EHasTexcoords_def EHasColors_def
  EFaceNormals_def ESinglePrecision_def EDoublePrecision_def has_flag_def

lemmas archive_simps = v3_archive_def v3_embedded_def v3_body_def v3_trailer_def stream_of_def
  loaded_empty_def empty_mesh_def unit_triangle_def exact_io_def

lemma read_bytes_Inl: "read_bytes n s = Inl e \<Longrightarrow> e = EStreamEOF"
  by (auto simp: read_bytes_def split: if_splits)

lemma read_word_Inl: "read_word n s = Inl e \<Longrightarrow> e = EStreamEOF"
  by (auto simp: read_word_def elim!: bindE_InlE dest: read_bytes_Inl split: prod.splits)

lemma read_array_Inl: "read_array c w d s = Inl e \<Longrightarrow> e = EStreamEOF"
  by (auto simp: read_array_def elim!: bindE_InlE dest: read_bytes_Inl split: prod.splits)

lemma readHelper_Inl: "readHelper io s fd c n = Inl e \<Longrightarrow> e = EStreamEOF"
  by (auto simp: readHelper_def Let_def readFloatArray_def readDoubleArray_def readSingleArray_def
      dest: read_array_Inl split: if_splits)

lemma readString_Inl: "readString io s = Inl e \<Longrightarrow> e = EStreamEOF"
  by (auto simp: readString_def split: option.splits if_splits)

lemma readOptional_Inl:
  "readOptional p rd s = Inl e \<Longrightarrow> (\<And>s e. rd s = Inl e \<Longrightarrow> e = EStreamEOF) \<Longrightarrow> e = EStreamEOF"
  by (auto simp: readOptional_def elim!: bindE_InlE split: if_splits prod.splits)

lemma readBody_Inl: "readBody ops io z v m = Inl e \<Longrightarrow> e = EStreamEOF"
  unfolding readBody_def Let_def readUInt_def readSize_def readUIntArray_def
  by (auto elim!: bindE_InlE dest: read_word_Inl readString_Inl readHelper_Inl read_array_Inl
      readOptional_Inl split: prod.splits if_splits)

lemma zstream_reader_Inl: "zstream_reader io s = Inl e \<Longrightarrow> e = EInflate"
  by (auto simp: zstream_reader_def split: option.splits)

lemma loadCompressed_0_not_range: "loadCompressed ops io s 0 m \<noteq> Inl EIndexOutOfRange"
  unfolding loadCompressed_def readShort_def
  by (auto elim!: bindE_InlE dest!: read_word_Inl readBody_Inl zstream_reader_Inl
      split: prod.splits if_splits)

lemma loadCompressed_0_stream:
  assumes "loadCompressed ops io s 0 m = Inr (m', s')"
  shows "s' = s\<lparr>s_pos := s_pos s + 4,
                 s_journal := s_journal s @ [OpRead (s_pos s) 2, OpRead (s_pos s + 2) 2]\<rparr>"
  using assms
  by (auto simp: loadCompressed_def readShort_def read_word_def read_bytes_def bindE_Inr_iff
      split: if_splits prod.splits)

lemma read_bytes_cong:
  assumes "same_ahead s t"
  shows "(read_bytes n s = Inl EStreamEOF \<and> read_bytes n t = Inl EStreamEOF) \<or>
     (\<exists>bs s' t'. read_bytes n s = Inr (bs, s') \<and> read_bytes n t = Inr (bs, t')
        \<and> same_ahead s' t')"
  using assms
  by (auto simp: same_ahead_def read_bytes_def) (metis add.commute drop_drop)+

lemma read_word_cong:
  assumes "same_ahead s t"
  shows "(read_word n s = Inl EStreamEOF \<and> read_word n t = Inl EStreamEOF) \<or>
     (\<exists>w s' t'. read_word n s = Inr (w, s') \<and> read_word n t = Inr (w, t') \<and> same_ahead s' t')"
  using read_bytes_cong [OF assms, of n] assms
  by (auto simp: read_word_def same_ahead_def)

lemma zstream_reader_cong:
  "same_ahead s t \<Longrightarrow> zstream_reader io s = zstream_reader io t"
  by (simp add: zstream_reader_def same_ahead_def)

lemma loadCompressed_0_cong:
  assumes "same_ahead s t"
  shows "map_sum id fst (loadCompressed ops io s 0 m)
     = map_sum id fst (loadCompressed ops io t 0 m)"
proof -
  have o: "s_order s = s_order t" using assms by (simp add: same_ahead_def)
  from read_word_cong [OF assms, of 2]
  consider "readShort s = Inl EStreamEOF" "readShort t = Inl EStreamEOF"
    | format s1 t1 where "readShort s = Inr (format, s1)" "readShort t = Inr (format, t1)"
        "same_ahead s1 t1"
    unfolding readShort_def by blast
  then show ?thesis
  proof cases
    case 1
    then show ?thesis by (simp add: loadCompressed_def o)
  next
    case 2
    from read_word_cong [OF 2(3), of 2]
    consider "readShort s1 = Inl EStreamEOF" "readShort t1 = Inl EStreamEOF"
      | version s2 t2 where "readShort s1 = Inr (version, s2)" "readShort t1 = Inr (version, t2)"
          "same_ahead s2 t2"
      unfolding readShort_def by blast
    then show ?thesis
    proof cases
      case 1
      with 2 show ?thesis by (simp add: loadCompressed_def o)
    next
      case b: 2
      have z: "zstream_reader io s2 = zstream_reader io t2"
        by (rule zstream_reader_cong [OF b(3)])
      show ?thesis
        using 2 b z
        by (cases "zstream_reader io t2")
          (auto simp: loadCompressed_def o bindE_def split: sum.splits)
    qed
  qed
qed

text \<open>
  C10. With the segment index 0, \<open>loadCompressed\<close> never reports an index out of
  range; when it returns, all it has done to the underlying stream before opening the
  decompression view is to read two shorts, one after the other, from the position the
  stream had (no seek, no size query, no read elsewhere); and its outcome, the error
  or the mesh, is the same for every stream that has the same byte order and the same
  bytes from its position on, whatever its size and whatever precedes the position.
\<close>

theorem loadCompressed_segment0_sequential:
  "loadCompressed ops io s 0 m \<noteq> Inl EIndexOutOfRange \<and>
   (\<forall>m' s'. loadCompressed ops io s 0 m = Inr (m', s') \<longrightarrow>
      s' = s\<lparr>s_pos := s_pos s + 4,
             s_journal := s_journal s @ [OpRead (s_pos s) 2, OpRead (s_pos s + 2) 2]\<rparr>) \<and>
   (\<forall>t. same_ahead s t \<longrightarrow>
      map_sum id fst (loadCompressed ops io t 0 m) = map_sum id fst (loadCompressed ops io s 0 m))"
  using loadCompressed_0_not_range [of ops io s m] loadCompressed_0_stream [of ops io s m]
    loadCompressed_0_cong [of s _ ops io m]
  by auto

text \<open>
  The witness: the header and the body of \<open>v3_archive\<close> without the trailer load as
  segment 0, and so they do from the middle of a stream.
\<close>

theorem loadCompressed_segment0_sequential_witness:
  "loadCompressed exact_ops exact_io (stream_of v3_body) 0 empty_mesh =
     Inr (loaded_empty False,
          (stream_of v3_body)\<lparr>s_pos := 4, s_journal := [OpRead 0 2, OpRead 2 2]\<rparr>) \<and>
   same_ahead (stream_of v3_body) v3_embedded \<and>
   map_sum id fst (loadCompressed exact_ops exact_io v3_embedded 0 empty_mesh) =
     Inr (loaded_empty False)"
proof -
  have a: "loadCompressed exact_ops exact_io (stream_of v3_body) 0 empty_mesh =
     Inr (loaded_empty False,
          (stream_of v3_body)\<lparr>s_pos := 4, s_journal := [OpRead 0 2, OpRead 2 2]\<rparr>)"
    by (simp add: loadCompressed_def readBody_def stream_simps format_simps archive_simps
        Let_def exact_simps)
  have b: "same_ahead (stream_of v3_body) v3_embedded"
    by (simp add: same_ahead_def archive_simps)
  from loadCompressed_segment0_sequential [of exact_ops exact_io "stream_of v3_body" empty_mesh] a b
  show ?thesis by simp
qed

text \<open>
  The range check of \<open>seekToSegment\<close> rejects an index exactly when it is negative or
  greater than the count read from the end of the stream: an index equal to the count
  passes.
\<close>

lemma seekToSegment_range_check:
  "seekToSegment s v index = Inl EIndexOutOfRange \<longleftrightarrow>
     (\<exists>count s'. readUInt (seek (unat (fst (getSize s) - 4)) (snd (getSize s))) = Inr (count, s')
        \<and> (sint index < 0 \<or> sint count < sint index))"
proof -
  obtain a b where g: "getSize s = (a, b)" by (cases "getSize s")
  show ?thesis
  proof (cases "readUInt (seek (unat (a - 4)) b)")
    case (Inl e)
    then have "e = EStreamEOF" by (auto simp: readUInt_def dest: read_word_Inl)
    with Inl g show ?thesis by (simp add: seekToSegment_def)
  next
    case (Inr r)
    obtain count s3 where r: "r = (count, s3)" by (cases r)
    show ?thesis
    proof (cases "sint index < 0 \<or> sint count < sint index")
      case True
      with Inr r g show ?thesis by (auto simp: seekToSegment_def)
    next
      case False
      have "seekToSegment s v index \<noteq> Inl EIndexOutOfRange"
        using False Inr r g
        unfolding seekToSegment_def Let_def readUInt_def readSize_def
        by (auto elim!: bindE_InlE dest!: read_word_Inl split: prod.splits if_splits)
      with False Inr r g show ?thesis by auto
    qed
  qed
qed


section \<open>The round trip through the standalone format\<close>


lemma le_word_le_bytes: "(le_word (le_bytes n w) :: 'a::len word) = take_bit (8 * n) w"
proof (induction n arbitrary: w)
  case 0
  then show ?case by simp
next
  case (Suc n)
  show ?case
    apply (simp add: Suc)
    apply (rule bit_word_eqI)
    apply (auto simp: bit_simps)
    done
qed

lemma length_le_bytes [simp]: "length (le_bytes n w) = n"
  by (induction n arbitrary: w) auto

lemma length_encode [simp]: "length (encode order n w) = n"
  by (simp add: encode_def)

lemma decode_encode:
  "LENGTH('a::len) \<le> 8 * n \<Longrightarrow> decode order (encode order n (w :: 'a word)) = w"
  by (simp add: decode_def encode_def le_word_le_bytes take_bit_word_eq_self)

lemma read_bytes_ahead:
  assumes "ahead s = a @ rest"
  shows "\<exists>s'. read_bytes (length a) s = Inr (a, s') \<and> ahead s' = rest \<and> s_order s' = s_order s"
  using assms by (auto simp: ahead_def read_bytes_def) (metis add.commute append_eq_conv_conj drop_drop)

lemma read_word_ahead:
  assumes "ahead s = encode (s_order s) n (w :: 'a::len word) @ rest" "LENGTH('a) \<le> 8 * n"
  shows "\<exists>s'. read_word n s = Inr (w, s') \<and> ahead s' = rest \<and> s_order s' = s_order s"
  using read_bytes_ahead [OF assms(1)] assms(2)
  by (auto simp: read_word_def decode_encode)

lemma split_elems_concat:
  assumes "\<forall>x \<in> set xs. length (enc x) = width"
  shows "split_elems (length xs) width (concat (map enc xs)) = map enc xs"
  using assms by (induction xs) auto

lemma length_concat_fixed:
  assumes "\<forall>x \<in> set xs. length (enc x) = width"
  shows "length (concat (map enc xs)) = length xs * width"
  using assms by (induction xs) auto

lemma read_array_ahead:
  assumes "ahead s = concat (map enc xs) @ rest" "\<forall>x \<in> set xs. length (enc x) = width"
  shows "\<exists>s'. read_array (length xs) width dec s = Inr (map (\<lambda>x. dec (enc x)) xs, s')
           \<and> ahead s' = rest \<and> s_order s' = s_order s"
  using read_bytes_ahead [OF assms(1)] length_concat_fixed [OF assms(2)] split_elems_concat [OF assms(2)]
  by (auto simp: read_array_def)


lemma readHelper_written:
  assumes a: "ahead z = concat (map (writeFloat io_w ELittleEndian) xs) @ rest"
    and w: "\<forall>v. length (writeFloat io_w ELittleEndian v) = floatWidth io_w"
    and o: "s_order z = ELittleEndian"
    and n: "length xs = c * k"
  shows "\<exists>z'. readHelper io_r z (hostDoublePrecision io_w) c k = Inr (map (reread io_w io_r) xs, z')
           \<and> ahead z' = rest \<and> s_order z' = ELittleEndian"
proof -
  have wd: "\<forall>x \<in> set xs. length (writeFloat io_w ELittleEndian x) = floatWidth io_w"
    using w by simp
  note ra = read_array_ahead [OF a wd, unfolded n o]
  show ?thesis
  proof (cases "hostDoublePrecision io_w = hostDoublePrecision io_r")
    case True
    then have "floatWidth io_r = floatWidth io_w" by (simp add: floatWidth_def)
    with True ra [of "readFloat io_r ELittleEndian"] show ?thesis
      by (auto simp: readHelper_def readFloatArray_def reread_def o Let_def)
  next
    case False
    show ?thesis
    proof (cases "hostDoublePrecision io_w")
      case True
      then have "floatWidth io_w = 8" by (simp add: floatWidth_def)
      with True False ra [of "readDouble io_r ELittleEndian"] show ?thesis
        by (auto simp: readHelper_def readDoubleArray_def reread_def o Let_def)
    next
      case f: False
      then have "floatWidth io_w = 4" by (simp add: floatWidth_def)
      with f False ra [of "readSingle io_r ELittleEndian"] show ?thesis
        by (auto simp: readHelper_def readSingleArray_def reread_def o Let_def)
    qed
  qed
qed

lemma vectors_of_floats_map:
  "vectors_of_floats (map f (floats_of_vectors ps)) = map (\<lambda>v. Vector (f (vx v)) (f (vy v)) (f (vz v))) ps"
  by (induction ps) (simp_all add: floats_of_vectors_def)

lemma point2s_of_floats_map:
  "point2s_of_floats (map f (floats_of_point2s ps)) = map (\<lambda>v. Point2 (f (px v)) (f (py v))) ps"
  by (induction ps) (simp_all add: floats_of_point2s_def)

lemma triangles_of_uints_inv: "triangles_of_uints (uints_of_triangles ts) = ts"
  by (induction ts) (simp_all add: uints_of_triangles_def)

lemma length_floats_of_vectors [simp]: "length (floats_of_vectors ps) = length ps * 3"
  by (induction ps) (simp_all add: floats_of_vectors_def)

lemma length_floats_of_point2s [simp]: "length (floats_of_point2s ps) = length ps * 2"
  by (induction ps) (simp_all add: floats_of_point2s_def)

lemma length_uints_of_triangles [simp]: "length (uints_of_triangles ts) = length ts * 3"
  by (induction ts) (simp_all add: uints_of_triangles_def)

lemma flags_read:
  "has_flag (serialize_flags io m) EHasNormals \<longleftrightarrow> m_normals m \<noteq> None"
  "has_flag (serialize_flags io m) EHasTexcoords \<longleftrightarrow> m_texcoords m \<noteq> None"
  "has_flag (serialize_flags io m) EHasColors \<longleftrightarrow> m_colors m \<noteq> None"
  "has_flag (serialize_flags io m) EFaceNormals \<longleftrightarrow> m_faceNormals m"
  "has_flag (serialize_flags io m) EDoublePrecision \<longleftrightarrow> hostDoublePrecision io"
  by (simp_all add: has_flag_def serialize_flags_def EHasNormals_def EHasTexcoords_def
      EHasColors_def EFaceNormals_def EDoublePrecision_def ESinglePrecision_def)


lemma readOptional_written:
  assumes a: "ahead z = optional_bytes (\<lambda>a. concat (map (writeFloat io_w ELittleEndian) (F a))) opt @ rest"
    and w: "\<forall>v. length (writeFloat io_w ELittleEndian v) = floatWidth io_w"
    and o: "s_order z = ELittleEndian"
    and n: "\<And>a. opt = Some a \<Longrightarrow> length (F a) = c * k"
  shows "\<exists>z'. readOptional (opt \<noteq> None) (\<lambda>s. readHelper io_r s (hostDoublePrecision io_w) c k) z
             = Inr (map_option (\<lambda>a. map (reread io_w io_r) (F a)) opt, z')
           \<and> ahead z' = rest \<and> s_order z' = ELittleEndian"
proof (cases opt)
  case None
  with a o show ?thesis by (simp add: readOptional_def optional_bytes_def)
next
  case (Some v)
  have "ahead z = concat (map (writeFloat io_w ELittleEndian) (F v)) @ rest"
    using a Some by (simp add: optional_bytes_def)
  from readHelper_written [OF this w o n [OF Some], of io_r] Some show ?thesis
    by (auto simp: readOptional_def)
qed

lemma write_bytes_end [simp]:
  "at_end z \<Longrightarrow> s_data (write_bytes bs z) = s_data z @ bs"
  "at_end z \<Longrightarrow> at_end (write_bytes bs z)"
  "s_order (write_bytes bs z) = s_order z"
  by (simp_all add: at_end_def write_bytes_def)

lemma at_end_writer [simp]: "at_end (zstream_writer io)" "s_data (zstream_writer io) = []"
  "s_order (zstream_writer io) = hostByteOrder io"
  by (simp_all add: at_end_def zstream_writer_def)

lemma first_n_all: "length xs = n \<Longrightarrow> first_n n xs = Inr xs"
  by (simp add: first_n_def)

lemma serialize_body:
  assumes wf: "wf_mesh m" and o: "s_order s = ELittleEndian"
  shows "serialize io s m
            = Inr (write_bytes (deflate io (body_bytes io m))
                    (writeShort MTS_FILEFORMAT_VERSION_V4 (writeShort MTS_FILEFORMAT_HEADER s)))"
proof -
  have len: "length (m_positions m) = m_vertexCount m" "length (m_triangles m) = m_triangleCount m"
    using wf by (simp_all add: wf_mesh_def)
  have opt: "\<And>a. m_normals m = Some a \<Longrightarrow> length a = m_vertexCount m"
    "\<And>a. m_texcoords m = Some a \<Longrightarrow> length a = m_vertexCount m"
    "\<And>a. m_colors m = Some a \<Longrightarrow> length a = m_vertexCount m"
    using wf by (simp_all add: wf_mesh_def has_len_def)
  show ?thesis
    using len opt o
    by (cases "m_normals m"; cases "m_texcoords m"; cases "m_colors m")
      (simp_all add: serialize_def Let_def writeFloats_def writeOptional_def first_n_all
        writeUInt_def writeString_def writeSize_def writeFloatArray_def writeUIntArray_def
        body_bytes_def float_bytes_def optional_bytes_def zstream_close_def)
qed

lemma write_bytes_within:
  assumes "s_data s = pre @ old" "s_pos s = length pre"
  shows "s_data (write_bytes bs s) = pre @ bs @ drop (length bs) old"
    "s_pos (write_bytes bs s) = length (pre @ bs)"
  using assms by (simp_all add: write_bytes_def)

lemma serialize_stream:
  assumes wf: "wf_mesh m" and o: "s_order s = ELittleEndian" and p: "s_pos s \<le> length (s_data s)"
  shows "\<exists>s1. serialize io s m = Inr s1 \<and> s_order s1 = ELittleEndian \<and>
     drop (s_pos s) (s_data s1) =
       encode ELittleEndian 2 MTS_FILEFORMAT_HEADER @ encode ELittleEndian 2 MTS_FILEFORMAT_VERSION_V4
       @ deflate io (body_bytes io m) @ stream_tail io s m"
proof -
  let ?pre = "take (s_pos s) (s_data s)"
  let ?old = "drop (s_pos s) (s_data s)"
  let ?h = "encode ELittleEndian 2 MTS_FILEFORMAT_HEADER"
  let ?v = "encode ELittleEndian 2 MTS_FILEFORMAT_VERSION_V4"
  let ?b = "deflate io (body_bytes io m)"
  let ?s1 = "writeShort MTS_FILEFORMAT_HEADER s"
  let ?s2 = "writeShort MTS_FILEFORMAT_VERSION_V4 ?s1"
  let ?s3 = "write_bytes ?b ?s2"
  have d0: "s_data s = ?pre @ ?old" "s_pos s = length ?pre" using p by simp_all
  have o1: "s_order ?s1 = ELittleEndian" "s_order ?s2 = ELittleEndian" "s_order ?s3 = ELittleEndian"
    using o by (simp_all add: writeShort_def write_bytes_def)
  have d1: "s_data ?s1 = (?pre @ ?h) @ drop 2 ?old" "s_pos ?s1 = length (?pre @ ?h)"
    using write_bytes_within [OF d0, of ?h] o by (simp_all add: writeShort_def)
  have d2: "s_data ?s2 = (?pre @ ?h @ ?v) @ drop 2 (drop 2 ?old)" "s_pos ?s2 = length (?pre @ ?h @ ?v)"
    using write_bytes_within [OF d1, of ?v] o1 by (simp_all add: writeShort_def)
  have d3: "s_data ?s3 = (?pre @ ?h @ ?v @ ?b) @ drop (length ?b) (drop 2 (drop 2 ?old))"
    using write_bytes_within [OF d2, of ?b] by simp
  have t: "drop (length ?b) (drop 2 (drop 2 ?old)) = stream_tail io s m"
  proof -
    have "length ?b + (2 + (2 + s_pos s)) = s_pos s + 4 + length ?b" by simp
    then show ?thesis by (simp only: drop_drop stream_tail_def)
  qed
  have "drop (s_pos s) (s_data ?s3) = ?h @ ?v @ ?b @ stream_tail io s m"
    unfolding d3 t using p by simp
  with serialize_body [OF wf o, of io] o1 show ?thesis by simp
qed


lemma vectors_reread:
  "vectors_of_floats (map (reread io_w io_r) (floats_of_vectors ps)) = map (reread3 io_w io_r) ps"
  by (simp add: vectors_of_floats_map reread3_def)

lemma point2s_reread:
  "point2s_of_floats (map (reread io_w io_r) (floats_of_point2s ps)) = map (reread2 io_w io_r) ps"
  by (simp add: point2s_of_floats_map reread2_def)

lemma readString_ahead:
  assumes "ahead s = enc @ rest"
    and "readString_bytes io (s_order s) (enc @ rest) = Some (str, length enc)"
  shows "\<exists>s'. readString io s = Inr (str, s') \<and> ahead s' = rest \<and> s_order s' = s_order s"
proof -
  have "drop (s_pos s + length enc) (s_data s) = rest"
    using assms(1) unfolding ahead_def by (metis add.commute append_eq_conv_conj drop_drop)
  with assms show ?thesis
    by (simp add: readString_def ahead_def)
qed

lemma readBody_written:
  assumes a: "ahead z = body_bytes io_w m" and o: "s_order z = ELittleEndian"
    and c: "codec_agrees io_w io_r s m" and wf: "wf_mesh m"
  shows "readBody ops io_r z MTS_FILEFORMAT_VERSION_V4 m0 = Inr (reloaded ops io_w io_r m m0)"
proof -
  have h: "hostByteOrder io_w = ELittleEndian"
    and w: "\<forall>v. length (writeFloat io_w ELittleEndian v) = floatWidth io_w"
    and str: "\<And>rest. readString_bytes io_r ELittleEndian
               (writeString_bytes io_w ELittleEndian (m_name m) @ rest)
             = Some (m_name m, length (writeString_bytes io_w ELittleEndian (m_name m)))"
    and sz: "m_vertexCount m < 2 ^ 64" "m_triangleCount m < 2 ^ 64"
    using c by (simp_all add: codec_agrees_def)
  have len: "length (m_positions m) = m_vertexCount m" "length (m_triangles m) = m_triangleCount m"
    using wf by (simp_all add: wf_mesh_def)
  have opt: "\<And>a. m_normals m = Some a \<Longrightarrow> length a = m_vertexCount m"
    "\<And>a. m_texcoords m = Some a \<Longrightarrow> length a = m_vertexCount m"
    "\<And>a. m_colors m = Some a \<Longrightarrow> length a = m_vertexCount m"
    using wf by (simp_all add: wf_mesh_def has_len_def)
  let ?vc = "m_vertexCount m" and ?tc = "m_triangleCount m"
  let ?W = "\<lambda>xs. concat (map (writeFloat io_w ELittleEndian) xs)"
  let ?A9 = "concat (map (encode ELittleEndian 4) (uints_of_triangles (m_triangles m)))"
  let ?A8 = "optional_bytes (\<lambda>a. ?W (floats_of_vectors a)) (m_colors m) @ ?A9"
  let ?A7 = "optional_bytes (\<lambda>a. ?W (floats_of_point2s a)) (m_texcoords m) @ ?A8"
  let ?A6 = "optional_bytes (\<lambda>a. ?W (floats_of_vectors a)) (m_normals m) @ ?A7"
  let ?A5 = "?W (floats_of_vectors (m_positions m)) @ ?A6"
  let ?A4 = "encode ELittleEndian 8 (of_nat ?tc :: u64) @ ?A5"
  let ?A3 = "encode ELittleEndian 8 (of_nat ?vc :: u64) @ ?A4"
  let ?A2 = "writeString_bytes io_w ELittleEndian (m_name m) @ ?A3"
  have a1: "ahead z = encode (s_order z) 4 (serialize_flags io_w m) @ ?A2"
    using a by (simp add: body_bytes_def h o float_bytes_def)
  from read_word_ahead [OF a1] obtain z1 where
    r1: "readUInt z = Inr (serialize_flags io_w m, z1)" and a2: "ahead z1 = ?A2"
    and o1: "s_order z1 = ELittleEndian"
    using o by (auto simp: readUInt_def)
  from readString_ahead [OF a2, of io_r "m_name m"] str [of ?A3] o1 obtain z2 where
    r2: "readString io_r z1 = Inr (m_name m, z2)"
    and a3: "ahead z2 = encode (s_order z2) 8 (of_nat ?vc :: u64) @ ?A4" and o2: "s_order z2 = ELittleEndian"
    by auto
  from read_word_ahead [OF a3] obtain z3 where
    r3: "readSize z2 = Inr (of_nat ?vc, z3)" and a4: "ahead z3 = encode (s_order z3) 8 (of_nat ?tc :: u64) @ ?A5"
    and o3: "s_order z3 = ELittleEndian"
    using o2 by (auto simp: readSize_def)
  from read_word_ahead [OF a4] obtain z4 where
    r4: "readSize z3 = Inr (of_nat ?tc, z4)" and a5: "ahead z4 = ?A5"
    and o4: "s_order z4 = ELittleEndian"
    using o3 by (auto simp: readSize_def)
  have u: "unat (of_nat ?vc :: u64) = ?vc" "unat (of_nat ?tc :: u64) = ?tc"
    using sz by (simp_all add: unat_of_nat)
  from readHelper_written [OF a5 w o4, of ?vc 3 io_r] obtain z5 where
    r5: "readHelper io_r z4 (hostDoublePrecision io_w) ?vc 3
          = Inr (map (reread io_w io_r) (floats_of_vectors (m_positions m)), z5)"
    and a6: "ahead z5 = ?A6" and o5: "s_order z5 = ELittleEndian"
    using len by auto
  from readOptional_written [OF a6 w o5, of ?vc 3 io_r] obtain z6 where
    r6: "readOptional (m_normals m \<noteq> None) (\<lambda>s. readHelper io_r s (hostDoublePrecision io_w) ?vc 3) z5
          = Inr (map_option (\<lambda>a. map (reread io_w io_r) (floats_of_vectors a)) (m_normals m), z6)"
    and a7: "ahead z6 = ?A7" and o6: "s_order z6 = ELittleEndian"
    using opt by auto
  from readOptional_written [OF a7 w o6, of ?vc 2 io_r] obtain z7 where
    r7: "readOptional (m_texcoords m \<noteq> None) (\<lambda>s. readHelper io_r s (hostDoublePrecision io_w) ?vc 2) z6
          = Inr (map_option (\<lambda>a. map (reread io_w io_r) (floats_of_point2s a)) (m_texcoords m), z7)"
    and a8: "ahead z7 = ?A8" and o7: "s_order z7 = ELittleEndian"
    using opt by auto
  from readOptional_written [OF a8 w o7, of ?vc 3 io_r] obtain z8 where
    r8: "readOptional (m_colors m \<noteq> None) (\<lambda>s. readHelper io_r s (hostDoublePrecision io_w) ?vc 3) z7
          = Inr (map_option (\<lambda>a. map (reread io_w io_r) (floats_of_vectors a)) (m_colors m), z8)"
    and a9: "ahead z8 = ?A9 @ []" and o8: "s_order z8 = ELittleEndian"
    using opt by auto
  have "\<forall>x \<in> set (uints_of_triangles (m_triangles m)). length (encode ELittleEndian 4 x) = 4"
    by simp
  from read_array_ahead [OF a9 this, of "decode ELittleEndian :: byte list \<Rightarrow> u32"] obtain z9 where
    r9: "readUIntArray (?tc * 3) z8 = Inr (uints_of_triangles (m_triangles m), z9)"
    using o8 len by (auto simp: readUIntArray_def decode_encode)
  show ?thesis
    unfolding readBody_def
    by (simp add: r1 r2 r3 r4 u Let_def flags_read r5 r6 r7 r8 r9 reloaded_def
        vectors_reread point2s_reread triangles_of_uints_inv option.map_comp comp_def
        del: not_None_eq)
qed


lemma loadCompressed_written:
  assumes wf: "wf_mesh m" and o: "s_order s = ELittleEndian" and p: "s_pos s \<le> length (s_data s)"
    and c: "codec_agrees io_w io_r s m"
  shows "\<exists>s1 r. serialize io_w s m = Inr s1 \<and>
     loadCompressed ops io_r (seek (s_pos s) s1) 0 m0 = Inr (reloaded ops io_w io_r m m0, r)"
proof -
  let ?b = "body_bytes io_w m"
  from serialize_stream [OF wf o p, of io_w] obtain s1 where
    s1: "serialize io_w s m = Inr s1" and o1: "s_order s1 = ELittleEndian"
    and d: "drop (s_pos s) (s_data s1) =
       encode ELittleEndian 2 MTS_FILEFORMAT_HEADER @ encode ELittleEndian 2 MTS_FILEFORMAT_VERSION_V4
       @ deflate io_w ?b @ stream_tail io_w s m"
    by blast
  let ?r0 = "seek (s_pos s) s1"
  have a0: "ahead ?r0 = encode (s_order ?r0) 2 MTS_FILEFORMAT_HEADER
      @ (encode ELittleEndian 2 MTS_FILEFORMAT_VERSION_V4 @ deflate io_w ?b @ stream_tail io_w s m)"
    and or0: "s_order ?r0 = ELittleEndian"
    using d o1 by (simp_all add: ahead_def seek_def)
  from read_word_ahead [OF a0] or0 obtain r1 where
    e1: "readShort ?r0 = Inr (MTS_FILEFORMAT_HEADER, r1)"
    and a1: "ahead r1 = encode (s_order r1) 2 MTS_FILEFORMAT_VERSION_V4
        @ (deflate io_w ?b @ stream_tail io_w s m)"
    and or1: "s_order r1 = ELittleEndian"
    by (auto simp: readShort_def)
  from read_word_ahead [OF a1] or1 obtain r2 where
    e2: "readShort r1 = Inr (MTS_FILEFORMAT_VERSION_V4, r2)"
    and a2: "ahead r2 = deflate io_w ?b @ stream_tail io_w s m"
    by (auto simp: readShort_def)
  have inf: "inflate io_r (deflate io_w ?b @ stream_tail io_w s m) = Some ?b"
    using c by (simp add: codec_agrees_def)
  let ?z = "\<lparr>s_data = ?b, s_pos = 0, s_order = hostByteOrder io_r, s_journal = []\<rparr>"
  have e3: "zstream_reader io_r r2 = Inr ?z"
    using a2 inf by (simp add: zstream_reader_def ahead_def)
  have e4: "readBody ops io_r (?z\<lparr>s_order := ELittleEndian\<rparr>) MTS_FILEFORMAT_VERSION_V4 m0
      = Inr (reloaded ops io_w io_r m m0)"
    by (rule readBody_written [OF _ _ c wf]) (simp_all add: ahead_def)
  have "loadCompressed ops io_r ?r0 0 m0 = Inr (reloaded ops io_w io_r m m0, r2)"
    using or0 e1 e2 e3 e4
    by (simp add: loadCompressed_def MTS_FILEFORMAT_HEADER_def MTS_FILEFORMAT_VERSION_V4_def
        MTS_FILEFORMAT_VERSION_V3_def)
  with s1 show ?thesis by blast
qed

text \<open>
  C5. Let a mesh within the invariants of the data model be written by \<open>serialize\<close>
  to a little endian stream, and let \<open>loadCompressed\<close> read segment 0 from the
  position at which the writing began, where writer and reader use a stream library
  that agrees with itself (\<open>codec_agrees\<close>). Then the loaded mesh has the same vertex
  count, the same triangle count and the same triangle indices; its positions are
  the written positions as \<open>readHelper\<close> gets them back (\<open>reread3\<close>: the stored value
  itself, cast from the stored width where reader and writer differ in width), and
  they are identical when both have the same width and a written float reads back
  as itself; and normals, texture coordinates and colours are present exactly where
  they were.
\<close>

theorem serialize_loadCompressed_roundtrip:
  assumes wf: "wf_mesh m" and o: "s_order s = ELittleEndian" and p: "s_pos s \<le> length (s_data s)"
    and c: "codec_agrees io_w io_r s m"
  shows "\<exists>s1 m' r. serialize io_w s m = Inr s1 \<and>
     loadCompressed ops io_r (seek (s_pos s) s1) 0 m0 = Inr (m', r) \<and>
     m_vertexCount m' = m_vertexCount m \<and>
     m_triangleCount m' = m_triangleCount m \<and>
     m_triangles m' = m_triangles m \<and>
     m_positions m' = map (reread3 io_w io_r) (m_positions m) \<and>
     (hostDoublePrecision io_r = hostDoublePrecision io_w \<and>
      (\<forall>v \<in> set (floats_of_vectors (m_positions m)).
         readFloat io_r ELittleEndian (writeFloat io_w ELittleEndian v) = v)
      \<longrightarrow> m_positions m' = m_positions m) \<and>
     (m_normals m' = None \<longleftrightarrow> m_normals m = None) \<and>
     (m_texcoords m' = None \<longleftrightarrow> m_texcoords m = None) \<and>
     (m_colors m' = None \<longleftrightarrow> m_colors m = None)"
proof -
  from loadCompressed_written [OF wf o p c, of ops m0] obtain s1 r where
    s1: "serialize io_w s m = Inr s1"
    and l: "loadCompressed ops io_r (seek (s_pos s) s1) 0 m0 = Inr (reloaded ops io_w io_r m m0, r)"
    by blast
  have exact: "map (reread3 io_w io_r) (m_positions m) = m_positions m"
    if "hostDoublePrecision io_r = hostDoublePrecision io_w"
      and "\<forall>v \<in> set (floats_of_vectors (m_positions m)).
         readFloat io_r ELittleEndian (writeFloat io_w ELittleEndian v) = v"
  proof -
    have "reread3 io_w io_r v = v" if "v \<in> set (m_positions m)" for v
    proof -
      have "vx v \<in> set (floats_of_vectors (m_positions m))"
        "vy v \<in> set (floats_of_vectors (m_positions m))"
        "vz v \<in> set (floats_of_vectors (m_positions m))"
        using that by (auto simp: floats_of_vectors_def)
      with \<open>hostDoublePrecision io_r = hostDoublePrecision io_w\<close>
        \<open>\<forall>v \<in> set (floats_of_vectors (m_positions m)).
           readFloat io_r ELittleEndian (writeFloat io_w ELittleEndian v) = v\<close>
      show ?thesis by (simp add: reread3_def reread_def)
    qed
    then show ?thesis by (simp add: map_idI)
  qed
  show ?thesis
    using s1 l exact
    by (intro exI [of _ s1] exI [of _ "reloaded ops io_w io_r m m0"] exI [of _ r])
      (simp add: reloaded_def)
qed




lemma char_byte_inverse: "char_of_byte (byte_of_char c) = c"
  by (simp add: char_of_byte_def byte_of_char_def unat_of_nat)

lemma read_prefixed_string_written:
  assumes "length str < 2 ^ 32"
  shows "read_prefixed_string order (prefixed_string order str @ rest)
     = Some (str, length (prefixed_string order str))"
proof -
  have "unat (of_nat (length str) :: u32) = length str"
    using assms by (simp add: unat_of_nat)
  then show ?thesis
    by (simp add: read_prefixed_string_def prefixed_string_def decode_encode Let_def
        char_byte_inverse comp_def)
qed

lemma exact_io_agrees:
  assumes "length (m_name m) < 2 ^ 32" "m_vertexCount m < 2 ^ 64" "m_triangleCount m < 2 ^ 64"
  shows "codec_agrees exact_io exact_io (stream_of []) m"
  using assms read_prefixed_string_written [of "m_name m" ELittleEndian]
  by (simp add: codec_agrees_def exact_io_def floatWidth_def stream_tail_def stream_of_def)

lemma exact_io_reread:
  "v \<in> {Fin 0, Fin 1} \<Longrightarrow> readFloat exact_io ELittleEndian (writeFloat exact_io ELittleEndian v) = v"
  by (auto simp: exact_io_def decode_encode single_bits_def of_single_bits_def)

text \<open>
  The witness writes the triangle of the spec's scenario to an empty stream on the
  single precision, little endian platform and reads it back.
\<close>

theorem serialize_loadCompressed_roundtrip_witness:
  "wf_mesh unit_triangle \<and> codec_agrees exact_io exact_io (stream_of []) unit_triangle \<and>
   (\<exists>s1 m' r. serialize exact_io (stream_of []) unit_triangle = Inr s1 \<and>
      loadCompressed exact_ops exact_io (seek 0 s1) 0 empty_mesh = Inr (m', r) \<and>
      m_vertexCount m' = 3 \<and> m_triangleCount m' = 1 \<and> m_triangles m' = [Triangle 0 1 2] \<and>
      m_positions m' = [Vector (Fin 0) (Fin 0) (Fin 0), Vector (Fin 1) (Fin 0) (Fin 0),
                        Vector (Fin 0) (Fin 1) (Fin 0)] \<and>
      m_normals m' = None \<and> m_texcoords m' = None \<and> m_colors m' = None)"
proof -
  have c: "codec_agrees exact_io exact_io (stream_of []) unit_triangle"
    by (rule exact_io_agrees) (simp_all add: unit_triangle_def)
  have s: "s_order (stream_of []) = ELittleEndian" "s_pos (stream_of []) \<le> length (s_data (stream_of []))"
    "s_pos (stream_of []) = 0"
    by (simp_all add: stream_of_def)
  have e: "\<forall>v \<in> set (floats_of_vectors (m_positions unit_triangle)).
         readFloat exact_io ELittleEndian (writeFloat exact_io ELittleEndian v) = v"
    by (auto simp: unit_triangle_def floats_of_vectors_def intro!: exact_io_reread)
  from serialize_loadCompressed_roundtrip [OF wf_unit_triangle s(1,2) c, of exact_ops empty_mesh] e
  obtain s1 m' r where "serialize exact_io (stream_of []) unit_triangle = Inr s1"
    "loadCompressed exact_ops exact_io (seek (s_pos (stream_of [])) s1) 0 empty_mesh = Inr (m', r)"
    "m_vertexCount m' = m_vertexCount unit_triangle"
    "m_triangleCount m' = m_triangleCount unit_triangle"
    "m_triangles m' = m_triangles unit_triangle"
    "m_positions m' = m_positions unit_triangle"
    "m_normals m' = None \<longleftrightarrow> m_normals unit_triangle = None"
    "m_texcoords m' = None \<longleftrightarrow> m_texcoords unit_triangle = None"
    "m_colors m' = None \<longleftrightarrow> m_colors unit_triangle = None"
    by auto
  then have "serialize exact_io (stream_of []) unit_triangle = Inr s1 \<and>
      loadCompressed exact_ops exact_io (seek 0 s1) 0 empty_mesh = Inr (m', r) \<and>
      m_vertexCount m' = 3 \<and> m_triangleCount m' = 1 \<and> m_triangles m' = [Triangle 0 1 2] \<and>
      m_positions m' = [Vector (Fin 0) (Fin 0) (Fin 0), Vector (Fin 1) (Fin 0) (Fin 0),
                        Vector (Fin 0) (Fin 1) (Fin 0)] \<and>
      m_normals m' = None \<and> m_texcoords m' = None \<and> m_colors m' = None"
    by (simp add: s(3) unit_triangle_def)
  with wf_unit_triangle c show ?thesis by blast
qed


section \<open>rebuildTopology\<close>

lemmas topo_simps = rebuild_cluster_def build_step_def vertex_key_def face_normal_def
  compare_def cmp_float_def key_less_def same_range_def mergeable_def assign_corners_def
  assign_corner_def check_assigned_def all_assigned_def SENTINEL_def idx_def set_idx_def
  read_at_def Let_def

lemma computeNormals_keeps:
  assumes "computeNormals ops m = Inr (m', w)"
  shows "m_bsdf m' = m_bsdf m" "m_texcoords m' = m_texcoords m" "m_tangents m' = m_tangents m"
    "m_triangleCount m' = m_triangleCount m"
    "\<not> (m_faceNormals m \<and> m_flipNormals m) \<Longrightarrow> m_triangles m' = m_triangles m"
  using assms
  by (auto simp: computeNormals_def Let_def bindE_Inr_iff split: if_splits option.splits)

lemma computeUVTangents_triangles:
  "computeUVTangents ops m = Inr (m', w) \<Longrightarrow> m_triangles m' = m_triangles m"
  by (auto simp: computeUVTangents_def bindE_Inr_iff split: if_splits option.splits)

lemma configure_triangles:
  assumes "configure ops m = Inr (m', w)" "\<not> (m_faceNormals m \<and> m_flipNormals m)"
  shows "m_triangles m' = m_triangles m"
  using assms
  by (auto simp: configure_def bindE_Inr_iff computeNormals_keeps(5)
      split: option.splits if_splits dest!: computeUVTangents_triangles)

lemma configure_plain:
  assumes "wf_mesh m" "m_bsdf m = None"
  shows "\<exists>m' w. configure ops m = Inr (m', w)"
proof -
  obtain m1 w1 where c: "computeNormals ops m = Inr (m1, w1)"
    using computeNormals_total [OF assms(1)] by blast
  have "m_bsdf m1 = None"
    using computeNormals_keeps(1) [OF c] assms(2) by simp
  then show ?thesis
    by (simp add: configure_def c)
qed

text \<open>
  C4. The claim is that on every input mesh, a mesh with degenerate triangles
  included, every corner gets a vertex and the assertion after the clustering never
  fires. On a mesh that satisfies the invariants of the data model and whose one
  triangle has its corners \<open>(0,0,0)\<close>, \<open>(1,0,0)\<close>, \<open>(2,0,0)\<close> on a line, the cross product
  of the edges is zero, the face normal is \<open>0 / 0\<close> in every component, and that normal
  passes neither \<open>n1 == n2\<close> nor \<open>dot(n1, n2) > dpThresh\<close> against itself: the entries
  of the triangle seed three vertices and absorb no corner, all three corners keep
  \<open>0xFFFFFFFF\<close>, and the assertion of the code fails.
\<close>

theorem rebuildTopology_degenerate_assertion:
  "wf_mesh sliver \<and> rebuildTopology exact_ops (Fin 180) sliver = Inl EAssertionFailed"
  by (simp add: rebuildTopology_def wf_mesh_def has_len_def tri_in_range_def topo_simps
      sliver_def unit_triangle_def exact_simps vec_simps)

subsection \<open>The clustering on meshes with ordered floats\<close>

lemma compare_lex: "compare ops v1 v2 = lex_cmp ops (key_floats v1) (key_floats v2)"
  by (simp add: compare_def key_floats_def)

lemma float_lt_eqv:
  assumes o: "ordered_floats ops S" and s: "a \<in> S" "b \<in> S" "c \<in> S"
    and ab: "flt ops a b" and bc: "\<not> flt ops b c" "\<not> flt ops c b"
  shows "flt ops a c"
proof (rule ccontr)
  assume n: "\<not> flt ops a c"
  have "\<not> flt ops c a"
  proof
    assume "flt ops c a"
    with ab o s have "flt ops c b" unfolding ordered_floats_def by blast
    with bc show False by simp
  qed
  with n bc o s have "\<not> flt ops a b" unfolding ordered_floats_def by blast
  with ab show False by simp
qed

lemma float_eqv_lt:
  assumes o: "ordered_floats ops S" and s: "a \<in> S" "b \<in> S" "c \<in> S"
    and ab: "\<not> flt ops a b" "\<not> flt ops b a" and bc: "flt ops b c"
  shows "flt ops a c"
proof (rule ccontr)
  assume n: "\<not> flt ops a c"
  have "\<not> flt ops c a"
  proof
    assume "flt ops c a"
    with bc o s have "flt ops b a" unfolding ordered_floats_def by blast
    with ab show False by simp
  qed
  with n ab o s have "\<not> flt ops b c" unfolding ordered_floats_def by blast
  with bc show False by simp
qed

lemma lex_cmp_refl:
  assumes "ordered_floats ops S" "set xs \<subseteq> S"
  shows "lex_cmp ops xs xs = 0"
  using assms(2)
proof (induction xs)
  case Nil
  show ?case by simp
next
  case (Cons a xs)
  then have "\<not> flt ops a a"
    using assms(1) by (simp add: ordered_floats_def)
  with Cons show ?case by (simp add: cmp_float_def)
qed

lemma lex_cmp_trans:
  assumes o: "ordered_floats ops S"
    and "length xs = length ys" "length ys = length zs"
    and "set xs \<subseteq> S" "set ys \<subseteq> S" "set zs \<subseteq> S"
    and "lex_cmp ops xs ys < 0" "lex_cmp ops ys zs < 0"
  shows "lex_cmp ops xs zs < 0"
  using assms(2-)
proof (induction xs ys zs rule: list_induct3)
  case Nil
  then show ?case by simp
next
  case (Cons a xs b ys c zs)
  have s: "a \<in> S" "b \<in> S" "c \<in> S"
    using Cons.prems by simp_all
  have tr: "flt ops a b \<Longrightarrow> flt ops b c \<Longrightarrow> flt ops a c"
    using o s unfolding ordered_floats_def by blast
  have eq: "\<not> flt ops a b \<Longrightarrow> \<not> flt ops b a \<Longrightarrow> \<not> flt ops b c \<Longrightarrow> \<not> flt ops c b
      \<Longrightarrow> \<not> flt ops a c \<and> \<not> flt ops c a"
    using o s unfolding ordered_floats_def by blast
  consider (ll) "flt ops a b" "flt ops b c"
    | (le) "flt ops a b" "\<not> flt ops b c" "\<not> flt ops c b"
    | (el) "\<not> flt ops a b" "\<not> flt ops b a" "flt ops b c"
    | (ee) "\<not> flt ops a b" "\<not> flt ops b a" "\<not> flt ops b c" "\<not> flt ops c b"
        "lex_cmp ops xs ys < 0" "lex_cmp ops ys zs < 0"
    using Cons.prems(4,5) by (auto simp: cmp_float_def split: if_splits)
  then show ?case
  proof cases
    case ll
    then show ?thesis using tr by (simp add: cmp_float_def)
  next
    case le
    then show ?thesis using float_lt_eqv [OF o s] by (simp add: cmp_float_def)
  next
    case el
    then show ?thesis using float_eqv_lt [OF o s] by (simp add: cmp_float_def)
  next
    case ee
    have "lex_cmp ops xs zs < 0"
      using Cons.IH Cons.prems ee(5,6) by simp
    then show ?thesis using eq ee by (simp add: cmp_float_def)
  qed
qed

lemma lex_cmp_eqv:
  assumes "length xs = length ys"
  shows "\<not> lex_cmp ops xs ys < 0 \<and> \<not> lex_cmp ops ys xs < 0
     \<longleftrightarrow> list_all2 (\<lambda>a b. \<not> flt ops a b \<and> \<not> flt ops b a) xs ys"
  using assms
  by (induction xs ys rule: list_induct2) (auto simp: cmp_float_def)

lemma length_key_floats [simp]: "length (key_floats k) = 8"
  by (simp add: key_floats_def)

lemma eqv_all2_trans:
  assumes o: "ordered_floats ops S"
    and "set xs \<subseteq> S" "set ys \<subseteq> S" "set zs \<subseteq> S"
    and "list_all2 (\<lambda>a b. \<not> flt ops a b \<and> \<not> flt ops b a) xs ys"
    and "list_all2 (\<lambda>a b. \<not> flt ops a b \<and> \<not> flt ops b a) ys zs"
  shows "list_all2 (\<lambda>a b. \<not> flt ops a b \<and> \<not> flt ops b a) xs zs"
proof -
  have len: "length xs = length ys" "length ys = length zs"
    using assms(5,6) by (simp_all add: list_all2_lengthD)
  show ?thesis
    unfolding list_all2_conv_all_nth
  proof (intro conjI allI impI)
    show "length xs = length zs" using len by simp
  next
    fix i assume i: "i < length xs"
    have s: "xs ! i \<in> S" "ys ! i \<in> S" "zs ! i \<in> S"
      using assms(2-4) i len by (auto dest: nth_mem)
    have "\<not> flt ops (xs ! i) (ys ! i) \<and> \<not> flt ops (ys ! i) (xs ! i)"
      "\<not> flt ops (ys ! i) (zs ! i) \<and> \<not> flt ops (zs ! i) (ys ! i)"
      using assms(5,6) i len by (simp_all add: list_all2_conv_all_nth)
    then show "\<not> flt ops (xs ! i) (zs ! i)" "\<not> flt ops (zs ! i) (xs ! i)"
      using o s unfolding ordered_floats_def by blast+
  qed
qed

lemma same_key_all2:
  "same_key ops a b \<longleftrightarrow>
     list_all2 (\<lambda>a b. \<not> flt ops a b \<and> \<not> flt ops b a) (key_floats a) (key_floats b)"
  unfolding same_key_def key_less_def compare_lex
  by (rule lex_cmp_eqv) simp

lemma same_key_veq:
  assumes o: "ordered_floats ops S"
    and s: "set (key_floats a) \<subseteq> S" "set (key_floats b) \<subseteq> S"
    and k: "same_key ops a b"
  shows "veq ops (v_p a) (v_p b)"
proof -
  have "\<not> flt ops (vx (v_p a)) (vx (v_p b)) \<and> \<not> flt ops (vx (v_p b)) (vx (v_p a))"
    "\<not> flt ops (vy (v_p a)) (vy (v_p b)) \<and> \<not> flt ops (vy (v_p b)) (vy (v_p a))"
    "\<not> flt ops (vz (v_p a)) (vz (v_p b)) \<and> \<not> flt ops (vz (v_p b)) (vz (v_p a))"
    using k by (simp_all add: same_key_all2 key_floats_def)
  moreover have "vx (v_p a) \<in> S" "vy (v_p a) \<in> S" "vz (v_p a) \<in> S"
    "vx (v_p b) \<in> S" "vy (v_p b) \<in> S" "vz (v_p b) \<in> S"
    using s by (simp_all add: key_floats_def)
  ultimately show ?thesis
    using o unfolding ordered_floats_def veq_def by blast
qed

lemma veq_common:
  assumes o: "ordered_floats ops S"
    and s: "set (key_floats a) \<subseteq> S" "set (key_floats b) \<subseteq> S" "set (key_floats c) \<subseteq> S"
    and v: "veq ops (v_p a) (v_p c)" "veq ops (v_p b) (v_p c)"
  shows "veq ops (v_p a) (v_p b)"
proof -
  have m: "vx (v_p a) \<in> S" "vy (v_p a) \<in> S" "vz (v_p a) \<in> S"
    "vx (v_p b) \<in> S" "vy (v_p b) \<in> S" "vz (v_p b) \<in> S"
    "vx (v_p c) \<in> S" "vy (v_p c) \<in> S" "vz (v_p c) \<in> S"
    using s by (simp_all add: key_floats_def)
  have e: "feq ops x y \<longleftrightarrow> \<not> flt ops x y \<and> \<not> flt ops y x" if "x \<in> S" "y \<in> S" for x y
    using o that unfolding ordered_floats_def by blast
  have t: "feq ops x y" if "feq ops x z" "feq ops y z" "x \<in> S" "y \<in> S" "z \<in> S" for x y z
  proof -
    have "\<not> flt ops x z \<and> \<not> flt ops z x" "\<not> flt ops z y \<and> \<not> flt ops y z"
      using that e by blast+
    then have "\<not> flt ops x y \<and> \<not> flt ops y x"
      using o that(3-5) unfolding ordered_floats_def by blast
    then show ?thesis using e that by blast
  qed
  show ?thesis
    using v m t unfolding veq_def by blast
qed

lemma key_order_floats:
  assumes o: "ordered_floats ops S" and K: "\<forall>k \<in> K. set (key_floats k) \<subseteq> S"
  shows "key_order ops K"
  unfolding key_order_def
proof (intro conjI ballI impI)
  fix a assume "a \<in> K"
  then show "\<not> key_less ops a a"
    using lex_cmp_refl [OF o, of "key_floats a"] K by (simp add: key_less_def compare_lex)
next
  fix a b c assume "a \<in> K" "b \<in> K" "c \<in> K" "key_less ops a b \<and> key_less ops b c"
  then show "key_less ops a c"
    using lex_cmp_trans [OF o, of "key_floats a" "key_floats b" "key_floats c"] K
    by (simp add: key_less_def compare_lex)
next
  fix a b c assume "a \<in> K" "b \<in> K" "c \<in> K" "same_key ops a b \<and> same_key ops b c"
  then show "same_key ops a c"
    using eqv_all2_trans [OF o, of "key_floats a" "key_floats b" "key_floats c"] K
    by (simp add: same_key_all2)
next
  fix a b assume "a \<in> K" "b \<in> K" "same_key ops a b"
  then show "veq ops (v_p a) (v_p b)"
    using same_key_veq [OF o] K by blast
next
  fix a b c assume "a \<in> K" "b \<in> K" "c \<in> K" "veq ops (v_p a) (v_p c) \<and> veq ops (v_p b) (v_p c)"
  then show "veq ops (v_p a) (v_p b)"
    using veq_common [OF o] K by blast
qed

lemma set_mm_insert [simp]: "set (mm_insert ops e xs) = insert e (set xs)"
  by (induction xs) auto

lemma length_mm_insert [simp]: "length (mm_insert ops e xs) = Suc (length xs)"
  by (induction xs) auto

lemma key_sorted_mm_insert:
  assumes o: "key_order ops K" and e: "fst e \<in> K"
    and "fst ` set xs \<subseteq> K" "key_sorted ops xs"
  shows "key_sorted ops (mm_insert ops e xs)"
  using assms(3,4)
proof (induction xs)
  case Nil
  show ?case by (simp add: key_sorted_def)
next
  case (Cons x xs)
  have x: "fst x \<in> K" using Cons.prems(1) by simp
  have irr: "\<not> key_less ops a a" if "a \<in> K" for a
    using o that unfolding key_order_def by blast
  have tr: "key_less ops a c" if "key_less ops a b" "key_less ops b c" "a \<in> K" "b \<in> K" "c \<in> K"
    for a b c
    using o that unfolding key_order_def by blast
  show ?case
  proof (cases "key_less ops (fst e) (fst x)")
    case True
    have "\<not> key_less ops (fst x) (fst e)"
      using True tr [of "fst e" "fst x" "fst e"] irr e x by blast
    moreover have "\<not> key_less ops (fst y) (fst e)" if "y \<in> set xs" for y
    proof
      assume "key_less ops (fst y) (fst e)"
      moreover have "fst y \<in> K" using that Cons.prems(1) by auto
      ultimately have "key_less ops (fst y) (fst x)"
        using True tr e x by blast
      then show False
        using Cons.prems(2) that by (simp add: key_sorted_def)
    qed
    ultimately show ?thesis
      using True Cons.prems(2) by (simp add: key_sorted_def)
  next
    case False
    have "key_sorted ops (mm_insert ops e xs)"
      using Cons.IH Cons.prems by (simp add: key_sorted_def)
    then show ?thesis
      using False Cons.prems(2) by (simp add: key_sorted_def)
  qed
qed

lemma less_3_cases: "j < 3 \<longleftrightarrow> j = 0 \<or> j = 1 \<or> j = (2::nat)"
  by arith

lemma ex_less_3: "(\<exists>j<3. P j) \<longleftrightarrow> P 0 \<or> P 1 \<or> P (2::nat)"
  by (auto simp: less_3_cases)

lemma all_less_3: "(\<forall>j<3. P j) \<longleftrightarrow> P 0 \<and> P 1 \<and> P (2::nat)"
  by (auto simp: less_3_cases)

lemma in_inserted:
  "x \<in> set (inserted ops m n) \<longleftrightarrow> (\<exists>i<n. \<exists>j<3. x = occ_entry ops m i j)"
proof (induction n)
  case 0
  show ?case by simp
next
  case (Suc n)
  show ?case
    unfolding inserted.simps set_mm_insert insert_iff Suc ex_less_3 less_Suc_eq
    by blast
qed

lemma mesh_keysI: "i < m_triangleCount m \<Longrightarrow> j < 3 \<Longrightarrow> corner_key ops m i j \<in> mesh_keys ops m"
  unfolding mesh_keys_def by blast

lemma length_inserted [simp]: "length (inserted ops m n) = 3 * n"
  by (induction n) simp_all

lemma inserted_sorted:
  assumes o: "key_order ops (mesh_keys ops m)" and n: "n \<le> m_triangleCount m"
  shows "key_sorted ops (inserted ops m n)"
  using n
proof (induction n)
  case 0
  show ?case by (simp add: key_sorted_def)
next
  case (Suc n)
  let ?K = "mesh_keys ops m"
  have k: "fst (occ_entry ops m n j) \<in> ?K" if "j < 3" for j
    using Suc.prems that by (simp add: occ_entry_def mesh_keysI)
  have sub: "fst ` set (inserted ops m n) \<subseteq> ?K"
    using Suc.prems by (auto simp: in_inserted occ_entry_def intro!: mesh_keysI)
  have s0: "key_sorted ops (inserted ops m n)"
    using Suc by simp
  have s1: "key_sorted ops (mm_insert ops (occ_entry ops m n 0) (inserted ops m n))"
    by (rule key_sorted_mm_insert [OF o k sub s0]) simp
  have s2: "key_sorted ops (mm_insert ops (occ_entry ops m n 1)
      (mm_insert ops (occ_entry ops m n 0) (inserted ops m n)))"
    by (rule key_sorted_mm_insert [OF o k _ s1]) (use sub k [of 0] in auto)
  show ?case
    unfolding inserted.simps
    by (rule key_sorted_mm_insert [OF o k _ s2]) (use sub k [of 0] k [of 1] in auto)
qed

lemma vertex_key_wf:
  assumes "wf_mesh m" "i < m_triangleCount m"
  shows "vertex_key ops m (m_triangles m ! i) j = Inr (corner_key ops m i j)"
    "read_at (m_positions m) (unat (idx (m_triangles m ! i) j)) = Inr (corner_pos m i j)"
proof -
  have "tri_in_range (m_vertexCount m) (m_triangles m ! i)"
    using assms by (simp add: wf_mesh_def list_all_length)
  then have r: "unat (idx (m_triangles m ! i) j) < m_vertexCount m"
    by (rule idx_in_range)
  have len: "length (m_positions m) = m_vertexCount m"
    "\<And>uvs. m_texcoords m = Some uvs \<Longrightarrow> length uvs = m_vertexCount m"
    "\<And>cols. m_colors m = Some cols \<Longrightarrow> length cols = m_vertexCount m"
    using assms(1) by (simp_all add: wf_mesh_def has_len_def)
  show "read_at (m_positions m) (unat (idx (m_triangles m ! i) j)) = Inr (corner_pos m i j)"
    using r len by (simp add: read_at_def corner_pos_def)
  then show "vertex_key ops m (m_triangles m ! i) j = Inr (corner_key ops m i j)"
    using r len by (simp add: vertex_key_def corner_key_def read_at_def split: option.splits)
qed

lemma build_step_wf:
  assumes "wf_mesh m" "i < m_triangleCount m"
  shows "build_step ops m i (mm, fns, nts) =
     Inr (mm_insert ops (occ_entry ops m i 2)
            (mm_insert ops (occ_entry ops m i 1) (mm_insert ops (occ_entry ops m i 0) mm)),
          fns @ [tri_normal ops m i], nts @ [Triangle SENTINEL SENTINEL SENTINEL])"
proof -
  have "read_at (m_triangles m) i = Inr (m_triangles m ! i)"
    using assms by (simp add: wf_mesh_def read_at_def)
  then show ?thesis
    by (simp add: build_step_def vertex_key_wf [OF assms] occ_entry_def tri_normal_def)
qed

lemma build_loop:
  assumes "wf_mesh m" "n \<le> m_triangleCount m"
  shows "foldE (build_step ops m) [0..<n] ([], [], []) =
     Inr (inserted ops m n, map (tri_normal ops m) [0..<n],
          replicate n (Triangle SENTINEL SENTINEL SENTINEL))"
  using assms(2)
proof (induction n)
  case 0
  show ?case by simp
next
  case (Suc n)
  then show ?case
    by (simp add: foldE_append build_step_wf [OF assms(1)] replicate_append_same)
qed

lemma assign_corners_wf:
  assumes "wf_mesh m" "i < m_triangleCount m"
  shows "\<exists>nt'. assign_corners ops m (m_triangles m ! i) p V nt = Inr nt' \<and>
     (\<forall>c<3. idx nt' c = (if veq ops (corner_pos m i c) p then V else idx nt c))"
proof -
  have r: "assign_corner ops m (m_triangles m ! i) p V c t =
      Inr (if veq ops (corner_pos m i c) p then set_idx t c V else t)" for c t
    by (simp add: assign_corner_def vertex_key_wf(2) [OF assms])
  show ?thesis
    by (simp add: assign_corners_def r all_less_3 idx_def set_idx_def)
qed

lemma absorb_all:
  assumes wf: "wf_mesh m" and fl: "length fns = m_triangleCount m"
    and "length nts = m_triangleCount m"
    and "\<forall>x \<in> set es. \<not> clustered (snd x) \<and> t_idx (snd x) < m_triangleCount m \<and>
           mergeable ops dp n1 (fns ! t_idx (snd x))"
  shows "\<exists>nts'. absorb_loop ops m fns dp p n1 V es nts = Inr (map mark es, nts') \<and>
     length nts' = m_triangleCount m \<and>
     (\<forall>i < m_triangleCount m. \<forall>c<3. idx (nts' ! i) c =
        (if (\<exists>x \<in> set es. t_idx (snd x) = i) \<and> veq ops (corner_pos m i c) p then V
         else idx (nts ! i) c))"
  using assms(3,4)
proof (induction es arbitrary: nts)
  case Nil
  then show ?case by simp
next
  case (Cons e es)
  obtain k t2 where e: "e = (k, t2)" by (cases e)
  have t2: "\<not> clustered t2" "t_idx t2 < m_triangleCount m" "mergeable ops dp n1 (fns ! t_idx t2)"
    using Cons.prems(2) e by simp_all
  obtain nt' where nt': "assign_corners ops m (m_triangles m ! t_idx t2) p V (nts ! t_idx t2) = Inr nt'"
    and nt'_idx: "\<forall>c<3. idx nt' c =
       (if veq ops (corner_pos m (t_idx t2) c) p then V else idx (nts ! t_idx t2) c)"
    using assign_corners_wf [OF wf t2(2)] by blast
  let ?nts1 = "nts[t_idx t2 := nt']"
  have "length ?nts1 = m_triangleCount m" using Cons.prems(1) by simp
  from Cons.IH [OF this] Cons.prems(2)
  obtain nts' where rec: "absorb_loop ops m fns dp p n1 V es ?nts1 = Inr (map mark es, nts')"
    and len: "length nts' = m_triangleCount m"
    and eff: "\<forall>i < m_triangleCount m. \<forall>c<3. idx (nts' ! i) c =
        (if (\<exists>x \<in> set es. t_idx (snd x) = i) \<and> veq ops (corner_pos m i c) p then V
         else idx (?nts1 ! i) c)"
    by auto
  have tl: "length (m_triangles m) = m_triangleCount m"
    using wf by (simp add: wf_mesh_def)
  have run: "absorb_loop ops m fns dp p n1 V (e # es) nts = Inr (map mark (e # es), nts')"
    using t2 fl tl Cons.prems(1) nt' rec by (simp add: e read_at_def mark_def)
  have "idx (nts' ! i) c =
        (if (\<exists>x \<in> set (e # es). t_idx (snd x) = i) \<and> veq ops (corner_pos m i c) p then V
         else idx (nts ! i) c)" if "i < m_triangleCount m" "c < 3" for i c
  proof (cases "i = t_idx t2")
    case True
    then show ?thesis
      using eff that nt'_idx Cons.prems(1) t2(2) by (simp add: e)
  next
    case False
    then show ?thesis
      using eff that by (auto simp: e)
  qed
  with run len show ?case by blast
qed

lemma seed_skip:
  assumes "\<forall>x \<in> set es. clustered (snd x) \<and> t_idx (snd x) < length fns"
  shows "seed_loop ops m fns dp es st = Inr st"
  using assms
proof (induction es)
  case Nil
  show ?case by simp
next
  case (Cons e es)
  obtain k t where e: "e = (k, t)" by (cases e)
  from Cons show ?case by (simp add: e read_at_def)
qed

lemma seed_bucket:
  assumes wf: "wf_mesh m" and fl: "length fns = m_triangleCount m"
    and nl: "length (newTriangles st) = m_triangleCount m"
    and all: "\<forall>x \<in> set ((k0, t0) # es). \<not> clustered (snd x) \<and> t_idx (snd x) < m_triangleCount m \<and>
           mergeable ops dp (fns ! t_idx t0) (fns ! t_idx (snd x))"
  shows "\<exists>st'. seed_loop ops m fns dp ((k0, t0) # es) st = Inr st' \<and>
     length (newPositions st') = Suc (length (newPositions st)) \<and>
     length (newTriangles st') = m_triangleCount m \<and>
     (\<forall>i < m_triangleCount m. \<forall>c<3. idx (newTriangles st' ! i) c =
        (if (\<exists>x \<in> set ((k0, t0) # es). t_idx (snd x) = i) \<and> veq ops (corner_pos m i c) (v_p k0)
         then of_nat (length (newPositions st))
         else idx (newTriangles st ! i) c))"
proof -
  let ?V = "of_nat (length (newPositions st)) :: u32"
  let ?st1 = "st\<lparr>newPositions := newPositions st @ [v_p k0],
      newTexcoords := (if m_texcoords m \<noteq> None then newTexcoords st @ [v_uv k0] else newTexcoords st),
      newColors := (if m_colors m \<noteq> None then newColors st @ [v_col k0] else newColors st)\<rparr>"
  have t0: "\<not> clustered t0" "t_idx t0 < m_triangleCount m"
    using all by simp_all
  obtain nts' where ab: "absorb_loop ops m fns dp (v_p k0) (fns ! t_idx t0) ?V ((k0, t0) # es)
        (newTriangles st) = Inr (map mark ((k0, t0) # es), nts')"
    and len: "length nts' = m_triangleCount m"
    and eff: "\<forall>i < m_triangleCount m. \<forall>c<3. idx (nts' ! i) c =
        (if (\<exists>x \<in> set ((k0, t0) # es). t_idx (snd x) = i) \<and> veq ops (corner_pos m i c) (v_p k0)
         then ?V else idx (newTriangles st ! i) c)"
    using absorb_all [OF wf fl nl all] by blast
  have "\<forall>x \<in> set (map mark es). clustered (snd x) \<and> t_idx (snd x) < length fns"
    using all fl by (simp add: mark_def)
  then have skip: "seed_loop ops m fns dp (map mark es) (?st1\<lparr>newTriangles := nts'\<rparr>)
      = Inr (?st1\<lparr>newTriangles := nts'\<rparr>)"
    by (rule seed_skip)
  have "seed_loop ops m fns dp ((k0, t0) # es) st = Inr (?st1\<lparr>newTriangles := nts'\<rparr>)"
    using t0 fl ab skip by (simp add: read_at_def Let_def del: absorb_loop.simps)
  then show ?thesis
    using len eff by simp
qed

lemma same_key_sym: "same_key ops a b \<Longrightarrow> same_key ops b a"
  by (simp add: same_key_def)

lemma same_key_refl: "key_order ops K \<Longrightarrow> a \<in> K \<Longrightarrow> same_key ops a a"
  unfolding key_order_def same_key_def by blast

lemma same_key_trans:
  "key_order ops K \<Longrightarrow> a \<in> K \<Longrightarrow> b \<in> K \<Longrightarrow> c \<in> K
     \<Longrightarrow> same_key ops a b \<Longrightarrow> same_key ops b c \<Longrightarrow> same_key ops a c"
  unfolding key_order_def by blast

lemma key_less_trans:
  "key_order ops K \<Longrightarrow> a \<in> K \<Longrightarrow> b \<in> K \<Longrightarrow> c \<in> K
     \<Longrightarrow> key_less ops a b \<Longrightarrow> key_less ops b c \<Longrightarrow> key_less ops a c"
  unfolding key_order_def by blast

lemma same_key_less:
  assumes o: "key_order ops K" and s: "a \<in> K" "b \<in> K" "c \<in> K"
    and ab: "same_key ops a b" and bc: "key_less ops b c"
  shows "key_less ops a c"
proof (rule ccontr)
  assume n: "\<not> key_less ops a c"
  have "\<not> key_less ops c a"
  proof
    assume "key_less ops c a"
    then have "key_less ops b a"
      using key_less_trans [OF o s(2,3,1) bc] by simp
    with ab show False by (simp add: same_key_def)
  qed
  with n have "same_key ops a c" by (simp add: same_key_def)
  then have "same_key ops b c"
    using same_key_trans [OF o s(2,1,3) same_key_sym [OF ab]] by simp
  with bc show False by (simp add: same_key_def)
qed

lemma bucket_split:
  assumes o: "key_order ops K" and srt: "key_sorted ops (e # es)"
    and sub: "fst ` set (e # es) \<subseteq> K"
  shows "\<forall>x \<in> set (takeWhile (same_range ops (fst e)) es). same_key ops (fst x) (fst e)"
    and "\<forall>x \<in> set (dropWhile (same_range ops (fst e)) es). key_less ops (fst e) (fst x)"
    and "key_sorted ops (dropWhile (same_range ops (fst e)) es)"
proof -
  let ?T = "takeWhile (same_range ops (fst e)) es"
  let ?D = "dropWhile (same_range ops (fst e)) es"
  have after: "\<not> key_less ops (fst x) (fst e)" if "x \<in> set es" for x
    using srt that by (simp add: key_sorted_def)
  have es: "key_sorted ops (?T @ ?D)"
    using srt by (simp add: key_sorted_def)
  then show sd: "key_sorted ops ?D"
    by (simp add: key_sorted_def sorted_wrt_append)
  show "\<forall>x \<in> set ?T. same_key ops (fst x) (fst e)"
  proof
    fix x assume x: "x \<in> set ?T"
    then have "x \<in> set es" "same_range ops (fst e) x"
      by (auto dest: set_takeWhileD)
    then show "same_key ops (fst x) (fst e)"
      using after by (simp add: same_key_def same_range_def)
  qed
  show "\<forall>x \<in> set ?D. key_less ops (fst e) (fst x)"
  proof (cases ?D)
    case Nil
    then show ?thesis by (simp only: list.set ball_empty)
  next
    case (Cons y ys)
    have "\<not> same_range ops (fst e) y"
      using Cons hd_dropWhile [of "same_range ops (fst e)" es] by auto
    then have ey: "key_less ops (fst e) (fst y)"
      by (simp add: same_range_def)
    have Dsub: "set ?D \<subseteq> set es"
      by (auto dest: set_dropWhileD)
    have yK: "fst y \<in> K" and eK: "fst e \<in> K"
      using sub Dsub Cons by auto
    show ?thesis
    proof
      fix x assume x: "x \<in> set ?D"
      have xK: "fst x \<in> K" using sub Dsub x by auto
      show "key_less ops (fst e) (fst x)"
      proof (cases "x = y")
        case True
        with ey show ?thesis by simp
      next
        case False
        then have "x \<in> set ys" using x Cons by simp
        then have nxy: "\<not> key_less ops (fst x) (fst y)"
          using sd Cons by (simp add: key_sorted_def)
        show ?thesis
        proof (rule ccontr)
          assume "\<not> key_less ops (fst e) (fst x)"
          moreover have "\<not> key_less ops (fst x) (fst e)"
            using after x Dsub by blast
          ultimately have "same_key ops (fst x) (fst e)"
            by (simp add: same_key_def)
          from same_key_less [OF o xK eK yK this ey] nxy show False by simp
        qed
      qed
    qed
  qed
qed

lemma bucket_effect:
  assumes wf: "wf_mesh m" and o: "key_order ops (mesh_keys ops m)"
    and dc: "distinct_corners ops m" and k0: "k0 \<in> mesh_keys ops m"
    and occ: "\<forall>x \<in> set B. \<exists>i < m_triangleCount m. \<exists>j<3.
                x = occ_entry ops m i j \<and> same_key ops (corner_key ops m i j) k0"
    and full: "\<forall>i < m_triangleCount m. \<forall>j<3.
                same_key ops (corner_key ops m i j) k0 \<longrightarrow> occ_entry ops m i j \<in> set B"
    and i: "i < m_triangleCount m" and c: "c < 3"
  shows "(\<exists>x \<in> set B. t_idx (snd x) = i) \<and> veq ops (corner_pos m i c) (v_p k0)
     \<longleftrightarrow> same_key ops (corner_key ops m i c) k0"
proof
  assume l: "(\<exists>x \<in> set B. t_idx (snd x) = i) \<and> veq ops (corner_pos m i c) (v_p k0)"
  then obtain x where x: "x \<in> set B" "t_idx (snd x) = i" by blast
  with occ obtain i' j where j: "i' < m_triangleCount m" "j < 3" "x = occ_entry ops m i' j"
    "same_key ops (corner_key ops m i' j) k0"
    by blast
  have i': "i' = i" using x(2) j(3) by (simp add: occ_entry_def)
  have kj: "corner_key ops m i j \<in> mesh_keys ops m" and kc: "corner_key ops m i c \<in> mesh_keys ops m"
    using i c j(2) by (simp_all add: mesh_keysI)
  have "veq ops (v_p (corner_key ops m i j)) (v_p k0)"
    using o kj k0 j(4) i' unfolding key_order_def by blast
  moreover have "veq ops (v_p (corner_key ops m i c)) (v_p k0)"
    using l by (simp add: corner_key_def)
  ultimately have "veq ops (v_p (corner_key ops m i c)) (v_p (corner_key ops m i j))"
    using o kj kc k0 unfolding key_order_def by blast
  then have "veq ops (corner_pos m i c) (corner_pos m i j)"
    by (simp add: corner_key_def)
  then have "c = j"
    using dc i c j(2) unfolding distinct_corners_def by blast
  then show "same_key ops (corner_key ops m i c) k0"
    using j(4) i' by simp
next
  assume r: "same_key ops (corner_key ops m i c) k0"
  then have "occ_entry ops m i c \<in> set B"
    using full i c by blast
  moreover have "t_idx (snd (occ_entry ops m i c)) = i"
    by (simp add: occ_entry_def)
  moreover have "veq ops (v_p (corner_key ops m i c)) (v_p k0)"
    using o k0 r mesh_keysI [OF i c, of ops] unfolding key_order_def by blast
  then have "veq ops (corner_pos m i c) (v_p k0)"
    by (simp add: corner_key_def)
  ultimately show "(\<exists>x \<in> set B. t_idx (snd x) = i) \<and> veq ops (corner_pos m i c) (v_p k0)"
    by blast
qed

lemma vertex_not_sentinel:
  assumes "n < 4294967295"
  shows "(of_nat n :: u32) \<noteq> SENTINEL"
proof
  assume "(of_nat n :: u32) = SENTINEL"
  then have "unat (of_nat n :: u32) = unat (0xFFFFFFFF :: u32)"
    by (simp add: SENTINEL_def)
  then show False
    using assms by (simp add: unat_of_nat)
qed

lemma cluster_main:
  assumes wf: "wf_mesh m" and o: "key_order ops (mesh_keys ops m)"
    and dc: "distinct_corners ops m"
    and fl: "length fns = m_triangleCount m"
    and nm: "\<forall>i < m_triangleCount m. \<forall>i' < m_triangleCount m. \<forall>j<3. \<forall>j'<3.
        same_key ops (corner_key ops m i j) (corner_key ops m i' j')
          \<longrightarrow> mergeable ops dp (fns ! i) (fns ! i')"
  shows "key_sorted ops R \<Longrightarrow>
     (\<forall>x \<in> set R. \<exists>i < m_triangleCount m. \<exists>j<3. x = occ_entry ops m i j) \<Longrightarrow>
     (\<forall>i < m_triangleCount m. \<forall>j<3.
        (\<exists>x \<in> set R. same_key ops (corner_key ops m i j) (fst x))
          \<longrightarrow> occ_entry ops m i j \<in> set R) \<Longrightarrow>
     length (newTriangles st) = m_triangleCount m \<Longrightarrow>
     length (newPositions st) + length R < 4294967296 \<Longrightarrow>
     \<exists>st'. cluster_loop ops m fns dp R st = Inr st' \<and>
       length (newTriangles st') = m_triangleCount m \<and>
       (\<forall>i < m_triangleCount m. \<forall>j<3.
          if (\<exists>x \<in> set R. same_key ops (corner_key ops m i j) (fst x))
          then idx (newTriangles st' ! i) j \<noteq> SENTINEL \<and>
               (\<forall>i' < m_triangleCount m. \<forall>j'<3.
                  same_key ops (corner_key ops m i j) (corner_key ops m i' j')
                    \<longrightarrow> idx (newTriangles st' ! i') j' = idx (newTriangles st' ! i) j)
          else idx (newTriangles st' ! i) j = idx (newTriangles st ! i) j)"
proof (induction "length R" arbitrary: R st rule: less_induct)
  case less
  show ?case
  proof (cases R)
    case Nil
    then show ?thesis using less.prems(4) by simp
  next
    case (Cons e es)
    let ?K = "mesh_keys ops m"
    let ?T = "takeWhile (same_range ops (fst e)) es"
    let ?D = "dropWhile (same_range ops (fst e)) es"
    let ?B = "e # ?T"
    let ?V = "of_nat (length (newPositions st)) :: u32"
    have srt: "key_sorted ops (e # es)"
      using less.prems(1) Cons by simp
    have occR: "\<forall>x \<in> set R. \<exists>i < m_triangleCount m. \<exists>j<3. x = occ_entry ops m i j"
      using less.prems(2) .
    have eR: "e \<in> set R" using Cons by simp
    have BR: "x \<in> set R" if "x \<in> set ?B" for x
      using that Cons by (auto dest: set_takeWhileD)
    have DR: "x \<in> set R" if "x \<in> set ?D" for x
      using that Cons by (auto dest: set_dropWhileD)
    have RBD: "x \<in> set ?B \<or> x \<in> set ?D" if "x \<in> set R" for x
    proof -
      have "set (?T @ ?D) = set es" by (simp only: takeWhile_dropWhile_id)
      then have "set ?T \<union> set ?D = set es" by (simp only: set_append)
      then have "y \<in> set ?T \<or> y \<in> set ?D" if "y \<in> set es" for y
        using that by blast
      moreover have "x = e \<or> x \<in> set es" using that Cons by simp
      ultimately show ?thesis by (simp only: list.set insert_iff) blast
    qed
    have keyK: "corner_key ops m i j \<in> ?K" if "i < m_triangleCount m" "j < 3" for i j
      using that by (rule mesh_keysI)
    have fstK: "fst x \<in> ?K" if "x \<in> set R" for x
    proof -
      from occR that obtain i j where "i < m_triangleCount m" "j < 3" "x = occ_entry ops m i j"
        by blast
      then show ?thesis using keyK by (simp add: occ_entry_def)
    qed
    then have sub: "fst ` set (e # es) \<subseteq> ?K" using Cons by blast
    have eK: "fst e \<in> ?K" using fstK eR by blast
    obtain i0 j0 where e: "i0 < m_triangleCount m" "j0 < 3" "e = occ_entry ops m i0 j0"
      using occR eR by blast
    note bs = bucket_split [OF o srt sub]
    have Bsame: "\<forall>x \<in> set ?B. same_key ops (fst x) (fst e)"
      using bs(1) same_key_refl [OF o eK] by simp
    have Bocc: "\<forall>x \<in> set ?B. \<exists>i < m_triangleCount m. \<exists>j<3.
        x = occ_entry ops m i j \<and> same_key ops (corner_key ops m i j) (fst e)"
    proof
      fix x assume x: "x \<in> set ?B"
      then have "x \<in> set R" by (rule BR)
      with occR obtain i j where ij: "i < m_triangleCount m" "j < 3" "x = occ_entry ops m i j"
        by blast
      moreover have "same_key ops (fst x) (fst e)" using Bsame x by blast
      then have "same_key ops (corner_key ops m i j) (fst e)"
        using ij(3) by (simp add: occ_entry_def)
      ultimately show "\<exists>i < m_triangleCount m. \<exists>j<3.
          x = occ_entry ops m i j \<and> same_key ops (corner_key ops m i j) (fst e)"
        by blast
    qed
    have Dnot: "\<not> same_key ops k (fst e)" if "x \<in> set ?D" "same_key ops k (fst x)" "k \<in> ?K" for x k
    proof
      assume ke: "same_key ops k (fst e)"
      have xK: "fst x \<in> ?K" using that(1) DR fstK by blast
      have "same_key ops (fst x) (fst e)"
        using same_key_trans [OF o xK that(3) eK same_key_sym [OF that(2)] ke] .
      moreover have "key_less ops (fst e) (fst x)" using bs(2) that(1) by blast
      ultimately show False by (simp add: same_key_def)
    qed
    have Tsame: "same_key ops k (fst e)" if "x \<in> set ?B" "same_key ops k (fst x)" "k \<in> ?K" for x k
    proof -
      have xK: "fst x \<in> ?K" using that(1) BR fstK by blast
      have "same_key ops (fst x) (fst e)" using Bsame that(1) by blast
      from same_key_trans [OF o that(3) xK eK that(2) this] show ?thesis .
    qed
    have Bfull: "\<forall>i < m_triangleCount m. \<forall>j<3.
        same_key ops (corner_key ops m i j) (fst e) \<longrightarrow> occ_entry ops m i j \<in> set ?B"
    proof (intro allI impI)
      fix i j assume ij: "i < m_triangleCount m" "j < 3"
        "same_key ops (corner_key ops m i j) (fst e)"
      then have "occ_entry ops m i j \<in> set R"
        using less.prems(3) eR by blast
      moreover have "occ_entry ops m i j \<notin> set ?D"
      proof
        assume d: "occ_entry ops m i j \<in> set ?D"
        have "same_key ops (corner_key ops m i j) (fst (occ_entry ops m i j))"
          using same_key_refl [OF o keyK [OF ij(1,2)]] by (simp add: occ_entry_def)
        from Dnot [OF d this keyK [OF ij(1,2)]] ij(3) show False by simp
      qed
      ultimately show "occ_entry ops m i j \<in> set ?B"
        using RBD by blast
    qed
    have pre: "\<forall>x \<in> set ((fst e, snd e) # ?T). \<not> clustered (snd x) \<and>
        t_idx (snd x) < m_triangleCount m \<and>
        mergeable ops dp (fns ! t_idx (snd e)) (fns ! t_idx (snd x))"
    proof
      fix x assume "x \<in> set ((fst e, snd e) # ?T)"
      then have "x \<in> set ?B" by simp
      with Bocc obtain i j where ij: "i < m_triangleCount m" "j < 3" "x = occ_entry ops m i j"
        "same_key ops (corner_key ops m i j) (fst e)"
        by blast
      have "same_key ops (corner_key ops m i0 j0) (corner_key ops m i j)"
        using same_key_sym [OF ij(4)] e(3) by (simp add: occ_entry_def)
      then have "mergeable ops dp (fns ! i0) (fns ! i)"
        using nm e ij by blast
      then show "\<not> clustered (snd x) \<and> t_idx (snd x) < m_triangleCount m \<and>
          mergeable ops dp (fns ! t_idx (snd e)) (fns ! t_idx (snd x))"
        using ij e by (simp add: occ_entry_def)
    qed
    obtain st1 where seed: "seed_loop ops m fns dp ?B st = Inr st1"
      and np: "length (newPositions st1) = Suc (length (newPositions st))"
      and nl1: "length (newTriangles st1) = m_triangleCount m"
      and eff: "\<forall>i < m_triangleCount m. \<forall>c<3. idx (newTriangles st1 ! i) c =
         (if (\<exists>x \<in> set ((fst e, snd e) # ?T). t_idx (snd x) = i) \<and>
               veq ops (corner_pos m i c) (v_p (fst e))
          then ?V else idx (newTriangles st ! i) c)"
      using seed_bucket [OF wf fl less.prems(4) pre] by auto
    have eff1: "idx (newTriangles st1 ! i) c =
        (if same_key ops (corner_key ops m i c) (fst e) then ?V else idx (newTriangles st ! i) c)"
      if "i < m_triangleCount m" "c < 3" for i c
      using eff that bucket_effect [OF wf o dc eK Bocc Bfull that] by simp
    have lenD: "length ?D < length R"
      using Cons by (simp add: length_dropWhile_le less_Suc_eq_le)
    have occD: "\<forall>x \<in> set ?D. \<exists>i < m_triangleCount m. \<exists>j<3. x = occ_entry ops m i j"
      using occR DR by blast
    have closedD: "\<forall>i < m_triangleCount m. \<forall>j<3.
        (\<exists>x \<in> set ?D. same_key ops (corner_key ops m i j) (fst x))
          \<longrightarrow> occ_entry ops m i j \<in> set ?D"
    proof (intro allI impI)
      fix i j assume ij: "i < m_triangleCount m" "j < 3"
        "\<exists>x \<in> set ?D. same_key ops (corner_key ops m i j) (fst x)"
      then obtain x where x: "x \<in> set ?D" "same_key ops (corner_key ops m i j) (fst x)"
        by blast
      have ne: "\<not> same_key ops (corner_key ops m i j) (fst e)"
        using Dnot [OF x keyK [OF ij(1,2)]] .
      have "occ_entry ops m i j \<in> set R"
        using less.prems(3) ij(1,2) x DR by blast
      moreover have "occ_entry ops m i j \<notin> set ?B"
      proof
        assume "occ_entry ops m i j \<in> set ?B"
        then have "same_key ops (fst (occ_entry ops m i j)) (fst e)"
          using Bsame by blast
        with ne show False by (simp add: occ_entry_def)
      qed
      ultimately show "occ_entry ops m i j \<in> set ?D"
        using RBD by blast
    qed
    have boundD: "length (newPositions st1) + length ?D < 4294967296"
      using np less.prems(5) Cons length_dropWhile_le [of "same_range ops (fst e)" es] by simp
    from less.hyps [OF lenD bs(3) occD closedD nl1 boundD]
    obtain st' where rec: "cluster_loop ops m fns dp ?D st1 = Inr st'"
      and nl': "length (newTriangles st') = m_triangleCount m"
      and eff': "\<forall>i < m_triangleCount m. \<forall>j<3.
          if (\<exists>x \<in> set ?D. same_key ops (corner_key ops m i j) (fst x))
          then idx (newTriangles st' ! i) j \<noteq> SENTINEL \<and>
               (\<forall>i' < m_triangleCount m. \<forall>j'<3.
                  same_key ops (corner_key ops m i j) (corner_key ops m i' j')
                    \<longrightarrow> idx (newTriangles st' ! i') j' = idx (newTriangles st' ! i) j)
          else idx (newTriangles st' ! i) j = idx (newTriangles st1 ! i) j"
      by blast
    have run: "cluster_loop ops m fns dp R st = Inr st'"
      using seed rec Cons by simp
    have Vok: "?V \<noteq> SENTINEL"
      by (rule vertex_not_sentinel) (use less.prems(5) Cons in simp)
    have inB: "idx (newTriangles st' ! i) j = ?V"
      if "i < m_triangleCount m" "j < 3" "same_key ops (corner_key ops m i j) (fst e)" for i j
    proof -
      have "\<not> (\<exists>x \<in> set ?D. same_key ops (corner_key ops m i j) (fst x))"
        using Dnot keyK [OF that(1,2)] that(3) by blast
      then have "idx (newTriangles st' ! i) j = idx (newTriangles st1 ! i) j"
        using eff' that(1,2) by simp
      then show ?thesis using eff1 that by simp
    qed
    have "if (\<exists>x \<in> set R. same_key ops (corner_key ops m i j) (fst x))
          then idx (newTriangles st' ! i) j \<noteq> SENTINEL \<and>
               (\<forall>i' < m_triangleCount m. \<forall>j'<3.
                  same_key ops (corner_key ops m i j) (corner_key ops m i' j')
                    \<longrightarrow> idx (newTriangles st' ! i') j' = idx (newTriangles st' ! i) j)
          else idx (newTriangles st' ! i) j = idx (newTriangles st ! i) j"
      if ij: "i < m_triangleCount m" "j < 3" for i j
    proof -
      consider (a) "same_key ops (corner_key ops m i j) (fst e)"
        | (b) "\<not> same_key ops (corner_key ops m i j) (fst e)"
              "\<exists>x \<in> set ?D. same_key ops (corner_key ops m i j) (fst x)"
        | (c) "\<not> same_key ops (corner_key ops m i j) (fst e)"
              "\<not> (\<exists>x \<in> set ?D. same_key ops (corner_key ops m i j) (fst x))"
        by blast
      then show ?thesis
      proof cases
        case a
        have inR: "\<exists>x \<in> set R. same_key ops (corner_key ops m i j) (fst x)"
          using a eR by blast
        have "idx (newTriangles st' ! i') j' = idx (newTriangles st' ! i) j"
          if "i' < m_triangleCount m" "j' < 3"
            "same_key ops (corner_key ops m i j) (corner_key ops m i' j')" for i' j'
        proof -
          have "same_key ops (corner_key ops m i' j') (fst e)"
            using same_key_trans [OF o keyK [OF that(1,2)] keyK [OF ij] eK
                same_key_sym [OF that(3)] a] .
          then show ?thesis using inB that(1,2) inB [OF ij a] by simp
        qed
        then show ?thesis using inR inB [OF ij a] Vok by simp
      next
        case b
        have inR: "\<exists>x \<in> set R. same_key ops (corner_key ops m i j) (fst x)"
          using b(2) DR by blast
        show ?thesis using inR eff' ij b(2) by simp
      next
        case c
        have "\<not> (\<exists>x \<in> set R. same_key ops (corner_key ops m i j) (fst x))"
        proof
          assume "\<exists>x \<in> set R. same_key ops (corner_key ops m i j) (fst x)"
          then obtain x where x: "x \<in> set R" "same_key ops (corner_key ops m i j) (fst x)"
            by blast
          then have "x \<in> set ?B \<or> x \<in> set ?D" by (blast dest: RBD)
          then show False
            using Tsame [OF _ x(2) keyK [OF ij]] c x(2) by blast
        qed
        moreover have "idx (newTriangles st' ! i) j = idx (newTriangles st ! i) j"
          using eff' eff1 ij c by simp
        ultimately show ?thesis by simp
      qed
    qed
    with run nl' show ?thesis by blast
  qed
qed

lemma check_assigned_ok:
  assumes "length ts = n" "\<forall>i<n. all_assigned (ts ! i)"
  shows "check_assigned n ts = Inr ()"
proof -
  have "\<exists>u. foldE (\<lambda>i u. bindE (read_at ts i)
        (\<lambda>t. if all_assigned t then Inr () else Inl EAssertionFailed)) [0..<n] () = Inr u \<and> True"
    by (rule foldE_invariant) (use assms in \<open>auto simp: read_at_def\<close>)
  then show ?thesis by (simp add: check_assigned_def)
qed

lemma mesh_keys_floats:
  "k \<in> mesh_keys ops m \<Longrightarrow> set (key_floats k) \<subseteq> mesh_floats ops m"
  unfolding mesh_keys_def mesh_floats_def by blast

lemma cluster_stage:
  fixes ops :: "'f FloatOps"
  assumes wf: "wf_mesh m" and sz: "3 * m_triangleCount m < 2 ^ 32"
    and fo: "ordered_floats ops (mesh_floats ops m)"
    and dc: "distinct_corners ops m"
    and nm: "\<forall>i < m_triangleCount m. \<forall>i' < m_triangleCount m. \<forall>j<3. \<forall>j'<3.
        same_key ops (corner_key ops m i j) (corner_key ops m i' j')
          \<longrightarrow> mergeable ops dp (tri_normal ops m i) (tri_normal ops m i')"
  shows "\<exists>st. cluster_loop ops m (map (tri_normal ops m) [0..<m_triangleCount m]) dp
        (inserted ops m (m_triangleCount m))
        \<lparr>newPositions = [], newTexcoords = [], newColors = [],
          newTriangles = replicate (m_triangleCount m) (Triangle SENTINEL SENTINEL SENTINEL)\<rparr>
        = Inr st \<and>
      length (newTriangles st) = m_triangleCount m \<and>
      check_assigned (m_triangleCount m) (newTriangles st) = Inr () \<and>
      (\<forall>i < m_triangleCount m. \<forall>i' < m_triangleCount m. \<forall>j<3. \<forall>j'<3.
         same_key ops (corner_key ops m i j) (corner_key ops m i' j')
           \<longrightarrow> idx (newTriangles st ! i) j = idx (newTriangles st ! i') j')"
proof -
  let ?n = "m_triangleCount m"
  let ?fns = "map (tri_normal ops m) [0..<?n]"
  let ?R = "inserted ops m ?n"
  let ?st0 = "\<lparr>newPositions = [], newTexcoords = [], newColors = [],
      newTriangles = replicate ?n (Triangle SENTINEL SENTINEL SENTINEL)\<rparr> :: 'f NewMesh"
  have o: "key_order ops (mesh_keys ops m)"
    by (rule key_order_floats [OF fo]) (simp add: mesh_keys_floats)
  have fl: "length ?fns = ?n" by simp
  have nm': "\<forall>i < ?n. \<forall>i' < ?n. \<forall>j<3. \<forall>j'<3.
        same_key ops (corner_key ops m i j) (corner_key ops m i' j')
          \<longrightarrow> mergeable ops dp (?fns ! i) (?fns ! i')"
    using nm by simp
  have srt: "key_sorted ops ?R"
    by (rule inserted_sorted [OF o]) simp
  have occ: "\<forall>x \<in> set ?R. \<exists>i < ?n. \<exists>j<3. x = occ_entry ops m i j"
    by (simp add: in_inserted)
  have every: "occ_entry ops m i j \<in> set ?R" if "i < ?n" "j < 3" for i j
    using that unfolding in_inserted by blast
  then have closed: "\<forall>i < ?n. \<forall>j<3.
        (\<exists>x \<in> set ?R. same_key ops (corner_key ops m i j) (fst x))
          \<longrightarrow> occ_entry ops m i j \<in> set ?R"
    by blast
  have nl: "length (newTriangles ?st0) = ?n" by simp
  have bound: "length (newPositions ?st0) + length ?R < 4294967296"
    using sz by simp
  from cluster_main [OF wf o dc fl nm' srt occ closed nl bound]
  obtain st where all: "cluster_loop ops m ?fns dp ?R ?st0 = Inr st \<and>
      length (newTriangles st) = ?n \<and>
      (\<forall>i < ?n. \<forall>j<3.
          if (\<exists>x \<in> set ?R. same_key ops (corner_key ops m i j) (fst x))
          then idx (newTriangles st ! i) j \<noteq> SENTINEL \<and>
               (\<forall>i' < ?n. \<forall>j'<3.
                  same_key ops (corner_key ops m i j) (corner_key ops m i' j')
                    \<longrightarrow> idx (newTriangles st ! i') j' = idx (newTriangles st ! i) j)
          else idx (newTriangles st ! i) j = idx (newTriangles ?st0 ! i) j)" ..
  note run = all [THEN conjunct1]
    and len = all [THEN conjunct2, THEN conjunct1]
    and eff = all [THEN conjunct2, THEN conjunct2, rule_format]
  have cls: "\<exists>x \<in> set ?R. same_key ops (corner_key ops m i j) (fst x)" if "i < ?n" "j < 3" for i j
  proof -
    have "same_key ops (corner_key ops m i j) (fst (occ_entry ops m i j))"
      using same_key_refl [OF o mesh_keysI [OF that]] by (simp add: occ_entry_def)
    with every [OF that] show ?thesis by blast
  qed
  have both: "idx (newTriangles st ! i) j \<noteq> SENTINEL \<and>
               (\<forall>i' < ?n. \<forall>j'<3.
                  same_key ops (corner_key ops m i j) (corner_key ops m i' j')
                    \<longrightarrow> idx (newTriangles st ! i') j' = idx (newTriangles st ! i) j)"
    if "i < ?n" "j < 3" for i j
    using eff [OF that, unfolded if_P [OF cls [OF that]]] .
  have "all_assigned (newTriangles st ! i)" if "i < ?n" for i
    unfolding all_assigned_def
    using both [OF that, of 0, THEN conjunct1] both [OF that, of 1, THEN conjunct1]
      both [OF that, of 2, THEN conjunct1]
    by simp
  then have chk: "check_assigned ?n (newTriangles st) = Inr ()"
    using len by (simp add: check_assigned_ok)
  have mrg: "\<forall>i < ?n. \<forall>i' < ?n. \<forall>j<3. \<forall>j'<3.
         same_key ops (corner_key ops m i j) (corner_key ops m i' j')
           \<longrightarrow> idx (newTriangles st ! i) j = idx (newTriangles st ! i') j'"
  proof (intro allI impI)
    fix i i' j j' :: nat
    assume h: "i < ?n" "i' < ?n" "j < 3" "j' < 3"
      "same_key ops (corner_key ops m i j) (corner_key ops m i' j')"
    from both [OF h(1,3), THEN conjunct2, rule_format, OF h(2,4,5)]
    show "idx (newTriangles st ! i) j = idx (newTriangles st ! i') j'" by simp
  qed
  show ?thesis
    by (rule exI [of _ st]) (intro conjI run len chk mrg)
qed

lemma foldE_modify_nth:
  "n \<le> length xs \<Longrightarrow>
     \<exists>ys. foldE (\<lambda>i ts. modify ts i g) [0..<n] xs = Inr ys \<and> length ys = length xs \<and>
       (\<forall>i < length xs. ys ! i = (if i < n then g (xs ! i) else xs ! i))"
proof (induction n)
  case 0
  show ?case by simp
next
  case (Suc n)
  then obtain ys where ys: "foldE (\<lambda>i ts. modify ts i g) [0..<n] xs = Inr ys"
    "length ys = length xs" "\<forall>i < length xs. ys ! i = (if i < n then g (xs ! i) else xs ! i)"
    by auto
  have n: "n < length ys" "ys ! n = xs ! n"
    using Suc.prems ys(2,3) by simp_all
  have "foldE (\<lambda>i ts. modify ts i g) [0..<Suc n] xs = Inr (ys[n := g (xs ! n)])"
    using ys(1) n by (simp add: foldE_append modify_def)
  moreover have "\<forall>i < length xs. (ys[n := g (xs ! n)]) ! i = (if i < Suc n then g (xs ! i) else xs ! i)"
    using ys(2,3) by (auto simp: nth_list_update less_Suc_eq)
  ultimately show ?case using ys(2) by simp
qed

lemma computeNormals_triangles:
  assumes c: "computeNormals ops m = Inr (m', w)"
    and len: "length (m_triangles m) = m_triangleCount m" and i: "i < m_triangleCount m"
  shows "m_triangles m' ! i =
     (if m_faceNormals m \<and> m_flipNormals m then swap01 (m_triangles m ! i) else m_triangles m ! i)"
proof (cases "m_faceNormals m \<and> m_flipNormals m")
  case False
  then have "m_triangles m' = m_triangles m"
    by (rule computeNormals_keeps(5) [OF c])
  with False show ?thesis by auto
next
  case True
  obtain ts where ts: "foldE (\<lambda>i ts. modify ts i swap01) [0..<m_triangleCount m] (m_triangles m) = Inr ts"
    "\<forall>i < length (m_triangles m). ts ! i =
       (if i < m_triangleCount m then swap01 (m_triangles m ! i) else m_triangles m ! i)"
    using foldE_modify_nth [of "m_triangleCount m" "m_triangles m" swap01] len by auto
  have "m_triangles m' = ts"
    using c True ts(1) by (auto simp: computeNormals_def Let_def)
  then show ?thesis using ts(2) True i len by simp
qed

lemma configure_corner:
  assumes c: "configure ops m = Inr (m', w)"
    and len: "length (m_triangles m) = m_triangleCount m" and i: "i < m_triangleCount m"
    and j: "j < 3"
  shows "idx (m_triangles m' ! i) (final_corner m j) = idx (m_triangles m ! i) j"
proof -
  from c obtain m1 w1 where c1: "computeNormals ops m = Inr (m1, w1)"
    and t: "m_triangles m' = m_triangles m1"
    by (auto simp: configure_def bindE_Inr_iff split: option.splits if_splits
        dest!: computeUVTangents_triangles)
  have "idx (swap01 t) (if j = 0 then 1 else if j = 1 then 0 else j) = idx t j" for t
    by (simp add: swap01_def idx_def)
  then show ?thesis
    using computeNormals_triangles [OF c1 len i] t by (simp add: final_corner_def)
qed

lemma stripped_mesh:
  "corner_pos (m\<lparr>m_normals := None, m_tangents := None\<rparr>) = corner_pos m"
  "corner_key ops (m\<lparr>m_normals := None, m_tangents := None\<rparr>) = corner_key ops m"
  "tri_normal ops (m\<lparr>m_normals := None, m_tangents := None\<rparr>) = tri_normal ops m"
  "mesh_floats ops (m\<lparr>m_normals := None, m_tangents := None\<rparr>) = mesh_floats ops m"
  "distinct_corners ops (m\<lparr>m_normals := None, m_tangents := None\<rparr>) = distinct_corners ops m"
  "wf_mesh m \<Longrightarrow> wf_mesh (m\<lparr>m_normals := None, m_tangents := None\<rparr>)"
proof -
  show p: "corner_pos (m\<lparr>m_normals := None, m_tangents := None\<rparr>) = corner_pos m"
    by (intro ext) (simp add: corner_pos_def)
  show k: "corner_key ops (m\<lparr>m_normals := None, m_tangents := None\<rparr>) = corner_key ops m"
    by (intro ext) (simp add: corner_key_def p split: option.splits)
  show "tri_normal ops (m\<lparr>m_normals := None, m_tangents := None\<rparr>) = tri_normal ops m"
    by (intro ext) (simp add: tri_normal_def p)
  show "mesh_floats ops (m\<lparr>m_normals := None, m_tangents := None\<rparr>) = mesh_floats ops m"
    by (simp add: mesh_floats_def k)
  show "distinct_corners ops (m\<lparr>m_normals := None, m_tangents := None\<rparr>) = distinct_corners ops m"
    by (simp add: distinct_corners_def p)
  show "wf_mesh m \<Longrightarrow> wf_mesh (m\<lparr>m_normals := None, m_tangents := None\<rparr>)"
    by (simp add: wf_mesh_def has_len_def)
qed

lemma all_less_2: "(\<forall>i<2. P i) \<longleftrightarrow> P 0 \<and> P (1::nat)"
  by (auto simp: less_2_cases_iff)

lemma lessThan_small: "{..<2::nat} = {0, 1}" "{..<3::nat} = {0, 1, 2}"
  by auto

lemma ordered_floats_exact:
  assumes "\<forall>a \<in> S. a \<in> range Fin"
  shows "ordered_floats exact_ops S"
proof -
  have fin: "\<exists>r. a = Fin r" if "a \<in> S" for a
    using assms that by auto
  have ops: "flt exact_ops = xlt" "feq exact_ops = xeq"
    by (simp_all add: exact_simps)
  show ?thesis
    unfolding ordered_floats_def ops
  proof (intro conjI ballI impI)
    fix a assume "a \<in> S"
    then show "\<not> xlt a a" using fin by fastforce
  next
    fix a b c assume "a \<in> S" "b \<in> S" "c \<in> S" "xlt a b \<and> xlt b c"
    then show "xlt a c" using fin [of a] fin [of b] fin [of c] by auto
  next
    fix a b c assume "a \<in> S" "b \<in> S" "c \<in> S"
      "\<not> xlt a b \<and> \<not> xlt b a \<and> \<not> xlt b c \<and> \<not> xlt c b"
    then show "\<not> xlt a c" "\<not> xlt c a"
      using fin [of a] fin [of b] fin [of c] by auto
  next
    fix a b assume "a \<in> S" "b \<in> S"
    then show "xeq a b \<longleftrightarrow> \<not> xlt a b \<and> \<not> xlt b a"
      using fin [of a] fin [of b] by auto
  qed
qed

lemma split_quad_normals:
  "\<forall>i<2. tri_normal exact_ops split_quad i = Vector (Fin 0) (Fin 0) (Fin 1)"
  by (simp add: all_less_2 tri_normal_def face_normal_def corner_pos_def idx_def split_quad_def
      unit_triangle_def exact_simps vec_simps)

lemma split_quad_hyps:
  "wf_mesh split_quad"
  "3 * m_triangleCount split_quad < 2 ^ 32"
  "ordered_floats exact_ops (mesh_floats exact_ops split_quad)"
  "distinct_corners exact_ops split_quad"
  "normals_mergeable exact_ops (Fin 180) split_quad"
proof -
  have n: "m_triangleCount split_quad = 2"
    by (simp add: split_quad_def)
  show "wf_mesh split_quad"
    by (simp add: wf_mesh_def has_len_def tri_in_range_def split_quad_def unit_triangle_def)
  show "3 * m_triangleCount split_quad < 2 ^ 32"
    by (simp add: n)
  have "\<forall>i<2. \<forall>j<3. set (key_floats (corner_key exact_ops split_quad i j)) \<subseteq> range Fin"
    by (simp add: all_less_2 all_less_3 key_floats_def corner_key_def corner_pos_def idx_def
        split_quad_def unit_triangle_def exact_simps vzero_def)
  then show "ordered_floats exact_ops (mesh_floats exact_ops split_quad)"
    by (intro ordered_floats_exact) (auto simp: mesh_floats_def n)
  show "distinct_corners exact_ops split_quad"
    by (simp add: distinct_corners_def n all_less_2 all_less_3 corner_pos_def idx_def veq_def
        split_quad_def unit_triangle_def exact_simps)
  have "mergeable exact_ops dp (Vector (Fin 0) (Fin 0) (Fin 1)) (Vector (Fin 0) (Fin 0) (Fin 1))"
    for dp
    by (simp add: mergeable_def veq_def exact_simps)
  then show "normals_mergeable exact_ops (Fin 180) split_quad"
    using split_quad_normals by (simp add: normals_mergeable_def n)
qed

text \<open>
  C3, as the spec states it, fails at crease angle 180 on a two-sided triangle. Corner
  0 of both triangles is vertex 0, so the two occurrences have the same key; the face
  normals are \<open>(0,0,1)\<close> and \<open>(0,0,-1)\<close>, which are not equal and whose dot product
  \<open>-1\<close> is not greater than \<open>cos 180\<degree> = -1\<close>. The second triangle is not absorbed by
  the seed of the first and seeds a vertex of its own: the two occurrences are
  remapped to the vertices 0 and 1.
\<close>

theorem rebuildTopology_opposite_normals_counterexample:
  "wf_mesh two_sided \<and>
   same_key exact_ops (corner_key exact_ops two_sided 0 0) (corner_key exact_ops two_sided 1 0) \<and>
   (\<exists>m' ws. rebuildTopology exact_ops (Fin 180) two_sided = Inr (m', ws) \<and>
      m_triangles m' = [Triangle 0 4 2, Triangle 1 3 5])"
proof -
  let ?m1 = "two_sided\<lparr>m_vertexCount := 6,
      m_triangles := [Triangle 0 4 2, Triangle 1 3 5],
      m_positions := [Vector (Fin 0) (Fin 0) (Fin 0), Vector (Fin 0) (Fin 0) (Fin 0),
                      Vector (Fin 0) (Fin 1) (Fin 0), Vector (Fin 0) (Fin 1) (Fin 0),
                      Vector (Fin 1) (Fin 0) (Fin 0), Vector (Fin 1) (Fin 0) (Fin 0)]\<rparr>"
  have wf: "wf_mesh two_sided"
    by (simp add: wf_mesh_def has_len_def tri_in_range_def two_sided_def unit_triangle_def)
  have key: "same_key exact_ops (corner_key exact_ops two_sided 0 0)
      (corner_key exact_ops two_sided 1 0)"
    by (simp add: same_key_def key_less_def compare_def cmp_float_def corner_key_def
        corner_pos_def idx_def two_sided_def unit_triangle_def exact_simps vec_simps)
  have cluster: "rebuild_cluster exact_ops (Fin 180) two_sided = Inr ?m1"
    by (simp add: topo_simps two_sided_def unit_triangle_def exact_simps vec_simps upt_small)
  have wf1: "wf_mesh ?m1" and plain: "m_bsdf ?m1 = None"
    and flags: "\<not> (m_faceNormals ?m1 \<and> m_flipNormals ?m1)"
    by (simp_all add: wf_mesh_def has_len_def tri_in_range_def two_sided_def unit_triangle_def)
  obtain m' ws where conf: "configure exact_ops ?m1 = Inr (m', ws)"
    using configure_plain [OF wf1 plain] by blast
  have "m_triangles m' = [Triangle 0 4 2, Triangle 1 3 5]"
    using configure_triangles [OF conf flags] by simp
  moreover have "rebuildTopology exact_ops (Fin 180) two_sided = Inr (m', ws)"
    by (simp add: rebuildTopology_def cluster conf)
  ultimately show ?thesis
    using wf key by blast
qed

text \<open>
  C3, amended. Let the mesh satisfy the invariants of the data model and have fewer
  than \<open>2^32 / 3\<close> triangles; let \<open><\<close> and \<open>==\<close> order the floats of its keys as they
  order numbers (no NaN); let no triangle have two corners at the same position; and
  let the face normals of any two triangles that have corners with the same key pass
  the test \<open>n1 == n2 || dot(n1, n2) > cos(maxAngle)\<close> of the clustering. Then the
  clustering of \<open>rebuildTopology\<close> completes, its assertion holds, and in every mesh
  that \<open>rebuildTopology\<close> returns all occurrences with the same key have the same
  vertex index. At 180 degrees the test fails for exactly opposite normals and for the
  NaN normals of triangles without area, which is why it is a hypothesis.
\<close>

theorem rebuildTopology_merges_equal_keys:
  fixes ops :: "'f FloatOps"
  assumes wf: "wf_mesh m" and sz: "3 * m_triangleCount m < 2 ^ 32"
    and fo: "ordered_floats ops (mesh_floats ops m)"
    and dc: "distinct_corners ops m"
    and nm: "normals_mergeable ops maxAngle m"
  shows "(\<exists>m1. rebuild_cluster ops maxAngle m = Inr m1) \<and>
     (\<forall>m' ws. rebuildTopology ops maxAngle m = Inr (m', ws) \<longrightarrow>
        (\<forall>i < m_triangleCount m. \<forall>i' < m_triangleCount m. \<forall>j<3. \<forall>j'<3.
           same_key ops (corner_key ops m i j) (corner_key ops m i' j') \<longrightarrow>
             idx (m_triangles m' ! i) (final_corner m j)
               = idx (m_triangles m' ! i') (final_corner m j')))"
proof -
  let ?m = "m\<lparr>m_normals := None, m_tangents := None\<rparr>"
  let ?n = "m_triangleCount m"
  let ?dp = "fcos ops (degToRad ops maxAngle)"
  have wf': "wf_mesh ?m" using wf by (rule stripped_mesh(6))
  have nm': "\<forall>i < m_triangleCount ?m. \<forall>i' < m_triangleCount ?m. \<forall>j<3. \<forall>j'<3.
        same_key ops (corner_key ops ?m i j) (corner_key ops ?m i' j')
          \<longrightarrow> mergeable ops ?dp (tri_normal ops ?m i) (tri_normal ops ?m i')"
    using nm unfolding normals_mergeable_def stripped_mesh by simp
  have sz': "3 * m_triangleCount ?m < 2 ^ 32" using sz by simp
  have fo': "ordered_floats ops (mesh_floats ops ?m)" using fo by (simp only: stripped_mesh)
  have dc': "distinct_corners ops ?m" using dc by (simp only: stripped_mesh)
  from cluster_stage [OF wf' sz' fo' dc' nm']
  obtain st where all: "cluster_loop ops ?m (map (tri_normal ops ?m) [0..<m_triangleCount ?m]) ?dp
        (inserted ops ?m (m_triangleCount ?m))
        \<lparr>newPositions = [], newTexcoords = [], newColors = [],
          newTriangles = replicate (m_triangleCount ?m) (Triangle SENTINEL SENTINEL SENTINEL)\<rparr>
        = Inr st \<and>
      length (newTriangles st) = m_triangleCount ?m \<and>
      check_assigned (m_triangleCount ?m) (newTriangles st) = Inr () \<and>
      (\<forall>i < m_triangleCount ?m. \<forall>i' < m_triangleCount ?m. \<forall>j<3. \<forall>j'<3.
         same_key ops (corner_key ops ?m i j) (corner_key ops ?m i' j')
           \<longrightarrow> idx (newTriangles st ! i) j = idx (newTriangles st ! i') j')" ..
  note run = all [THEN conjunct1]
    and len = all [THEN conjunct2, THEN conjunct1]
    and chk = all [THEN conjunct2, THEN conjunct2, THEN conjunct1]
    and mrg = all [THEN conjunct2, THEN conjunct2, THEN conjunct2, rule_format]
  have build: "foldE (build_step ops ?m) [0..<m_triangleCount ?m] ([], [], []) =
     Inr (inserted ops ?m (m_triangleCount ?m), map (tri_normal ops ?m) [0..<m_triangleCount ?m],
          replicate (m_triangleCount ?m) (Triangle SENTINEL SENTINEL SENTINEL))"
    by (rule build_loop [OF wf']) simp
  define m1 where "m1 = ?m\<lparr>m_triangles := newTriangles st,
               m_positions := newPositions st,
               m_texcoords := (if m_texcoords ?m \<noteq> None then Some (newTexcoords st) else None),
               m_colors := (if m_colors ?m \<noteq> None then Some (newColors st) else None),
               m_vertexCount := length (newPositions st)\<rparr>"
  have rc: "rebuild_cluster ops maxAngle m = Inr m1"
    unfolding rebuild_cluster_def Let_def build bindE_Inr prod.case run chk m1_def ..
  have len1: "length (m_triangles m1) = m_triangleCount m1"
    using len by (simp add: m1_def)
  have same: "idx (m_triangles m' ! i) (final_corner m j)
      = idx (m_triangles m' ! i') (final_corner m j')"
    if r: "rebuildTopology ops maxAngle m = Inr (m', ws)"
      and h: "i < ?n" "i' < ?n" "j < 3" "j' < 3"
        "same_key ops (corner_key ops m i j) (corner_key ops m i' j')"
    for m' ws i i' j j'
  proof -
    have c: "configure ops m1 = Inr (m', ws)"
      using r by (simp add: rebuildTopology_def rc)
    have n1: "m_triangleCount m1 = ?n" and f: "final_corner m1 = final_corner m"
      by (simp_all add: m1_def final_corner_def fun_eq_iff)
    have "idx (m_triangles m' ! i) (final_corner m j) = idx (newTriangles st ! i) j"
      using configure_corner [OF c len1, of i j] h(1,3) n1 f by (simp add: m1_def)
    moreover have "idx (m_triangles m' ! i') (final_corner m j') = idx (newTriangles st ! i') j'"
      using configure_corner [OF c len1, of i' j'] h(2,4) n1 f by (simp add: m1_def)
    moreover have "idx (newTriangles st ! i) j = idx (newTriangles st ! i') j'"
      using mrg [of i i' j j'] h by (simp add: stripped_mesh)
    ultimately show ?thesis by simp
  qed
  show ?thesis
  proof (intro conjI allI impI)
    show "\<exists>m1. rebuild_cluster ops maxAngle m = Inr m1"
      using rc by blast
  qed (rule same)
qed

theorem rebuildTopology_merges_equal_keys_witness:
  "wf_mesh split_quad \<and> 3 * m_triangleCount split_quad < 2 ^ 32 \<and>
   ordered_floats exact_ops (mesh_floats exact_ops split_quad) \<and>
   distinct_corners exact_ops split_quad \<and>
   normals_mergeable exact_ops (Fin 180) split_quad \<and>
   same_key exact_ops (corner_key exact_ops split_quad 0 1) (corner_key exact_ops split_quad 1 0) \<and>
   (\<exists>m' ws. rebuildTopology exact_ops (Fin 180) split_quad = Inr (m', ws) \<and>
      idx (m_triangles m' ! 0) 1 = idx (m_triangles m' ! 1) 0)"
proof -
  let ?m1 = "split_quad\<lparr>m_vertexCount := 4,
      m_triangles := [Triangle 0 2 1, Triangle 2 3 1],
      m_positions := [Vector (Fin 0) (Fin 0) (Fin 0), Vector (Fin 0) (Fin 1) (Fin 0),
                      Vector (Fin 1) (Fin 0) (Fin 0), Vector (Fin 1) (Fin 1) (Fin 0)]\<rparr>"
  note merged = rebuildTopology_merges_equal_keys [OF split_quad_hyps, THEN conjunct2, rule_format]
  have key: "same_key exact_ops (corner_key exact_ops split_quad 0 1)
      (corner_key exact_ops split_quad 1 0)"
    by (simp add: same_key_def key_less_def compare_def cmp_float_def corner_key_def
        corner_pos_def idx_def split_quad_def unit_triangle_def exact_simps vec_simps)
  have cluster: "rebuild_cluster exact_ops (Fin 180) split_quad = Inr ?m1"
    by (simp add: topo_simps split_quad_def unit_triangle_def exact_simps vec_simps upt_small)
  have wf1: "wf_mesh ?m1" and plain: "m_bsdf ?m1 = None"
    by (simp_all add: wf_mesh_def has_len_def tri_in_range_def split_quad_def unit_triangle_def)
  obtain m' ws where conf: "configure exact_ops ?m1 = Inr (m', ws)"
    using configure_plain [OF wf1 plain] by blast
  have run: "rebuildTopology exact_ops (Fin 180) split_quad = Inr (m', ws)"
    by (simp add: rebuildTopology_def cluster conf)
  have "idx (m_triangles m' ! 0) (final_corner split_quad 1)
      = idx (m_triangles m' ! 1) (final_corner split_quad 0)"
    by (rule merged [OF run _ _ _ _ key]) (simp_all add: split_quad_def)
  then have "idx (m_triangles m' ! 0) 1 = idx (m_triangles m' ! 1) 0"
    by (simp add: final_corner_def split_quad_def unit_triangle_def)
  with run key split_quad_hyps show ?thesis by blast
qed


end
